theory Spec2Isabelle
  imports Complex_Main "HOL-Library.Multiset"
begin

section \<open>The static-site build script \<^verbatim>\<open>build.js\<close>\<close>

text \<open>
  A shallow embedding of \<^verbatim>\<open>build.js\<close>.  JavaScript strings are modelled as
  \<^typ>\<open>string\<close>: a character stands for one UTF-16 code unit below 256 (the
  Latin-1 range), so \<^const>\<open>length\<close> is the \<^verbatim>\<open>length\<close> of the
  JavaScript string.  Exceptions are values of the type \<open>error\<close>; the mutable
  module-level renderer variables and the in-place sorted article array are
  passed and returned explicitly.  What the libraries (marked, highlight.js,
  js-yaml), the host's \<^verbatim>\<open>Date\<close> parser, its time zone and
  \<^verbatim>\<open>Object.prototype\<close> contribute is collected in the record \<open>env\<close>; the
  readings of the clock are a parameter of the build.
\<close>

subsection \<open>Characters\<close>

text \<open>The class \<^verbatim>\<open>\s\<close> of JavaScript regular expressions (also what
  \<^verbatim>\<open>trim\<close> removes), restricted to code units below 256: tab, line feed,
  vertical tab, form feed, carriage return, space and no-break space.\<close>

definition is_space :: "char \<Rightarrow> bool" where
  "is_space c = (c \<in> set [CHR 0x09, CHR 0x0A, CHR 0x0B, CHR 0x0C, CHR 0x0D, CHR 0x20, CHR 0xA0])"

text \<open>The class \<^verbatim>\<open>\d\<close>.\<close>

definition is_digit :: "char \<Rightarrow> bool" where
  "is_digit c = (48 \<le> (of_char c :: nat) \<and> (of_char c :: nat) \<le> 57)"

text \<open>The class \<^verbatim>\<open>\w\<close>: ASCII letters, digits and the underscore.\<close>

definition is_word :: "char \<Rightarrow> bool" where
  "is_word c = (let n = (of_char c :: nat) in
     (48 \<le> n \<and> n \<le> 57) \<or> (65 \<le> n \<and> n \<le> 90) \<or> (97 \<le> n \<and> n \<le> 122) \<or> n = 95)"

text \<open>The class \<^verbatim>\<open>.\<close> without the \<^verbatim>\<open>s\<close> flag: every character
  but a line terminator (line feed, carriage return).\<close>

definition is_dot :: "char \<Rightarrow> bool" where
  "is_dot c = (c \<noteq> CHR 0x0A \<and> c \<noteq> CHR 0x0D)"

text \<open>\<^verbatim>\<open>String.prototype.toLowerCase\<close> on one code unit below 256.\<close>

definition lower_char :: "char \<Rightarrow> char" where
  "lower_char c = (let n = (of_char c :: nat) in
     if (65 \<le> n \<and> n \<le> 90) \<or> (192 \<le> n \<and> n \<le> 222 \<and> n \<noteq> 215)
     then char_of (n + 32) else c)"

definition toLowerCase :: "string \<Rightarrow> string" where
  "toLowerCase s = map lower_char s"

definition startsWith :: "string \<Rightarrow> string \<Rightarrow> bool" where
  "startsWith s p = (take (length p) s = p)"

definition endsWith :: "string \<Rightarrow> string \<Rightarrow> bool" where
  "endsWith s p = (length p \<le> length s \<and> drop (length s - length p) s = p)"

text \<open>\<^verbatim>\<open>String.prototype.trim\<close>.\<close>

definition trim :: "string \<Rightarrow> string" where
  "trim s = rev (dropWhile is_space (rev (dropWhile is_space s)))"

text \<open>\<^verbatim>\<open>s.substring(0, n)\<close>.\<close>

definition substring0 :: "nat \<Rightarrow> string \<Rightarrow> string" where
  "substring0 n s = take n s"

text \<open>\<^verbatim>\<open>xs.join(sep)\<close> on an array of strings.\<close>

fun join_with :: "string \<Rightarrow> string list \<Rightarrow> string" where
  "join_with sep [] = []"
| "join_with sep [x] = x"
| "join_with sep (x # y # ys) = x @ sep @ join_with sep (y # ys)"

text \<open>\<^verbatim>\<open>s.split(c)\<close> with a one-character separator: the pieces between the
  separators, empty pieces included.\<close>

fun split_on :: "char \<Rightarrow> string \<Rightarrow> string \<Rightarrow> string list" where
  "split_on sep cur [] = [cur]"
| "split_on sep cur (c # cs) =
     (if c = sep then cur # split_on sep [] cs else split_on sep (cur @ [c]) cs)"

text \<open>Decimal numerals: \<^verbatim>\<open>String(n)\<close> for an integer \<open>n\<close>.\<close>

definition digit_char :: "nat \<Rightarrow> char" where
  "digit_char n = char_of (48 + n)"

function string_of_nat :: "nat \<Rightarrow> string" where
  "string_of_nat n =
     (if n < 10 then [digit_char n] else string_of_nat (n div 10) @ [digit_char (n mod 10)])"
  by pat_completeness auto
termination
  by (relation "measure id") auto

declare string_of_nat.simps [simp del]

definition string_of_int :: "int \<Rightarrow> string" where
  "string_of_int i = (if i < 0 then CHR ''-'' # string_of_nat (nat (- i)) else string_of_nat (nat i))"

text \<open>\<^verbatim>\<open>s.padStart(n, '0')\<close>.\<close>

definition padStart0 :: "nat \<Rightarrow> string \<Rightarrow> string" where
  "padStart0 n s = replicate (n - length s) CHR ''0'' @ s"

subsection \<open>Regular expressions\<close>

text \<open>
  The regular expressions of the script are written with backtracking
  combinators in continuation-passing style: a matcher takes the continuation
  for what follows it and the text at the current position, and returns the
  first result in the order in which a backtracking engine tries the
  alternatives.  A starred character class hands the characters it consumed to
  its continuation, which is how capture groups are read.
\<close>

definition lit :: "string \<Rightarrow> (string \<Rightarrow> 'a option) \<Rightarrow> string \<Rightarrow> 'a option" where
  "lit l k s = (if take (length l) s = l then k (drop (length l) s) else None)"

text \<open>\<^verbatim>\<open>[p]*\<close>, greedy: the longest run first, then shorter ones.\<close>

fun star_greedy ::
  "(char \<Rightarrow> bool) \<Rightarrow> (string \<Rightarrow> string \<Rightarrow> 'a option) \<Rightarrow> string \<Rightarrow> string \<Rightarrow> 'a option" where
  "star_greedy p k acc [] = k acc []"
| "star_greedy p k acc (c # cs) =
     (if p c then
        (case star_greedy p k (acc @ [c]) cs of Some r \<Rightarrow> Some r | None \<Rightarrow> k acc (c # cs))
      else k acc (c # cs))"

text \<open>\<^verbatim>\<open>[p]*?\<close>, lazy: the shortest run first, then longer ones.\<close>

fun star_lazy ::
  "(char \<Rightarrow> bool) \<Rightarrow> (string \<Rightarrow> string \<Rightarrow> 'a option) \<Rightarrow> string \<Rightarrow> string \<Rightarrow> 'a option" where
  "star_lazy p k acc [] = k acc []"
| "star_lazy p k acc (c # cs) =
     (case k acc (c # cs) of
        Some r \<Rightarrow> Some r
      | None \<Rightarrow> if p c then star_lazy p k (acc @ [c]) cs else None)"

text \<open>\<^verbatim>\<open>[p]+\<close>, greedy.\<close>

definition plus_greedy ::
  "(char \<Rightarrow> bool) \<Rightarrow> (string \<Rightarrow> string \<Rightarrow> 'a option) \<Rightarrow> string \<Rightarrow> 'a option" where
  "plus_greedy p k s =
     (case s of [] \<Rightarrow> None | c # cs \<Rightarrow> if p c then star_greedy p k [c] cs else None)"

text \<open>\<^verbatim>\<open>[p]{0,n}\<close>, greedy.\<close>

fun upto_greedy ::
  "nat \<Rightarrow> (char \<Rightarrow> bool) \<Rightarrow> (string \<Rightarrow> string \<Rightarrow> 'a option) \<Rightarrow> string \<Rightarrow> string \<Rightarrow> 'a option" where
  "upto_greedy 0 p k acc s = k acc s"
| "upto_greedy (Suc n) p k acc [] = k acc []"
| "upto_greedy (Suc n) p k acc (c # cs) =
     (if p c then
        (case upto_greedy n p k (acc @ [c]) cs of Some r \<Rightarrow> Some r | None \<Rightarrow> k acc (c # cs))
      else k acc (c # cs))"

text \<open>\<^verbatim>\<open>(r)?\<close>, greedy: with the group first, then without.\<close>

definition opt ::
  "((string \<Rightarrow> 'a option) \<Rightarrow> string \<Rightarrow> 'a option) \<Rightarrow> (string \<Rightarrow> 'a option) \<Rightarrow> string \<Rightarrow> 'a option" where
  "opt r k s = (case r k s of Some x \<Rightarrow> Some x | None \<Rightarrow> k s)"

text \<open>\<^verbatim>\<open>(?!r)\<close>: negative lookahead.\<close>

definition not_ahead ::
  "((string \<Rightarrow> unit option) \<Rightarrow> string \<Rightarrow> unit option) \<Rightarrow> (string \<Rightarrow> 'a option) \<Rightarrow> string \<Rightarrow> 'a option" where
  "not_ahead r k s = (case r (\<lambda>_. Some ()) s of Some _ \<Rightarrow> None | None \<Rightarrow> k s)"

text \<open>
  \<^verbatim>\<open>s.replace(re, ...)\<close> with a global expression.  The matcher \<open>m\<close> is tried
  at each position from the left; where it matches it returns the replacement
  and the text after the match, and the scan goes on after the match.  No
  expression of the script matches the empty string, so the guard on the length
  (which makes the recursion terminate for every \<open>m\<close>) always holds for them.
\<close>

function gsub :: "(string \<Rightarrow> (string \<times> string) option) \<Rightarrow> string \<Rightarrow> string" where
  "gsub m [] = []"
| "gsub m (c # cs) =
     (case m (c # cs) of
        None \<Rightarrow> c # gsub m cs
      | Some (rep, rest) \<Rightarrow>
          if length rest \<le> length cs then rep @ gsub m rest else c # gsub m cs)"
  by pat_completeness auto
termination
  by (relation "measure (\<lambda>(m, s). length s)") auto

text \<open>Removing every match: \<^verbatim>\<open>s.replace(re, '')\<close>.\<close>

definition remove_all :: "(string \<Rightarrow> string option) \<Rightarrow> string \<Rightarrow> string" where
  "remove_all m = gsub (\<lambda>s. map_option (Pair []) (m s))"

text \<open>\<^verbatim>\<open>s.split(re)\<close>: the pieces between the matches.\<close>

function js_split :: "(string \<Rightarrow> string option) \<Rightarrow> string \<Rightarrow> string \<Rightarrow> string list" where
  "js_split m cur [] = [cur]"
| "js_split m cur (c # cs) =
     (case m (c # cs) of
        None \<Rightarrow> js_split m (cur @ [c]) cs
      | Some rest \<Rightarrow>
          if length rest \<le> length cs then cur # js_split m [] rest
          else js_split m (cur @ [c]) cs)"
  by pat_completeness auto
termination
  by (relation "measure (\<lambda>(m, cur, s). length s)") auto

text \<open>The loop \<^verbatim>\<open>while ((x = re.exec(s)) !== null) out.push(x[1])\<close> of a global
  expression with one capture group: the captures of the successive matches.\<close>

function exec_all :: "(string \<Rightarrow> (string \<times> string) option) \<Rightarrow> string \<Rightarrow> string list" where
  "exec_all m [] = []"
| "exec_all m (c # cs) =
     (case m (c # cs) of
        None \<Rightarrow> exec_all m cs
      | Some (cap, rest) \<Rightarrow>
          if length rest \<le> length cs then cap # exec_all m rest else exec_all m cs)"
  by pat_completeness auto
termination
  by (relation "measure (\<lambda>(m, s). length s)") auto

text \<open>\<^verbatim>\<open>/\s+/\<close>\<close>

definition re_spaces :: "string \<Rightarrow> string option" where
  "re_spaces = plus_greedy is_space (\<lambda>_ rest. Some rest)"


subsection \<open>The \<^verbatim>\<open>path\<close> module (POSIX)\<close>

text \<open>\<^verbatim>\<open>join\<close>, \<^verbatim>\<open>dirname\<close> and \<^verbatim>\<open>basename\<close> are imported from the runtime;
  they are written out here as the POSIX variants of the runtime compute them.\<close>

fun normalize_segs :: "bool \<Rightarrow> string list \<Rightarrow> string list \<Rightarrow> string list" where
  "normalize_segs allowAboveRoot acc [] = acc"
| "normalize_segs allowAboveRoot acc (seg # segs) =
     (if seg = [] \<or> seg = ''.'' then normalize_segs allowAboveRoot acc segs
      else if seg = ''..'' then
        (if acc \<noteq> [] \<and> last acc \<noteq> ''..'' then normalize_segs allowAboveRoot (butlast acc) segs
         else if allowAboveRoot then normalize_segs allowAboveRoot (acc @ [''..'']) segs
         else normalize_segs allowAboveRoot acc segs)
      else normalize_segs allowAboveRoot (acc @ [seg]) segs)"

definition normalize :: "string \<Rightarrow> string" where
  "normalize path =
     (if path = [] then ''.''
      else
        let isAbsolute = (hd path = CHR ''/'');
            trailingSeparator = (last path = CHR ''/'');
            p = join_with ''/'' (normalize_segs (\<not> isAbsolute) [] (split_on CHR ''/'' [] path))
        in if p = [] then (if isAbsolute then ''/'' else if trailingSeparator then ''./'' else ''.'')
           else (if isAbsolute then ''/'' else []) @ p @ (if trailingSeparator then ''/'' else []))"

definition join :: "string list \<Rightarrow> string" where
  "join args =
     (let parts = filter (\<lambda>a. a \<noteq> []) args
      in if parts = [] then ''.'' else normalize (join_with ''/'' parts))"

definition dirname :: "string \<Rightarrow> string" where
  "dirname path =
     (if path = [] then ''.''
      else
        let hasRoot = (hd path = CHR ''/'');
            u = dropWhile (\<lambda>c. c \<noteq> CHR ''/'') (dropWhile (\<lambda>c. c = CHR ''/'') (rev (tl path)))
        in if u = [] then (if hasRoot then ''/'' else ''.'')
           else if hasRoot \<and> length u = 1 then ''//''
           else take (length u) path)"

definition basename :: "string \<Rightarrow> string" where
  "basename path =
     rev (takeWhile (\<lambda>c. c \<noteq> CHR ''/'') (dropWhile (\<lambda>c. c = CHR ''/'') (rev path)))"

text \<open>\<^verbatim>\<open>basename(path, suffix)\<close>.\<close>

definition basename_suffix :: "string \<Rightarrow> string \<Rightarrow> string" where
  "basename_suffix path suffix =
     (if suffix = [] \<or> length path < length suffix then basename path
      else if suffix = path then []
      else
        let seg = basename path
        in if seg = [] then path
           else if endsWith seg suffix then
             (if seg = suffix then seg else take (length seg - length suffix) seg)
           else if endsWith suffix seg then seg @ takeWhile (\<lambda>c. c = CHR ''/'') (rev path)
           else seg)"

subsection \<open>Dates\<close>

text \<open>
  A \<^verbatim>\<open>Date\<close> is its time value, the milliseconds since the epoch, or \<open>None\<close> for
  an invalid date.  The calendar functions follow the ECMAScript definitions of
  \<^verbatim>\<open>YearFromTime\<close>, \<^verbatim>\<open>MonthFromTime\<close>, \<^verbatim>\<open>DateFromTime\<close>
  and \<^verbatim>\<open>MakeDay\<close> in the proleptic Gregorian calendar, computed from the day
  number.  The time zone of the build host is the function \<open>tza\<close>, the
  \<^verbatim>\<open>LocalTZA(t, isUTC)\<close> of ECMAScript: the offset of local time from UTC
  in milliseconds that is in force at the time value \<open>t\<close>, which is a UTC
  time when \<open>isUTC\<close> holds and a local time otherwise.
\<close>

type_synonym jsdate = "int option"

definition msPerDay :: int where
  "msPerDay = 86400000"

definition civil_from_days :: "int \<Rightarrow> int \<times> int \<times> int" where
  "civil_from_days z0 =
     (let z = z0 + 719468;
          era = z div 146097;
          doe = z mod 146097;
          yoe = (doe - doe div 1460 + doe div 36524 - doe div 146096) div 365;
          doy = doe - (365 * yoe + yoe div 4 - yoe div 100);
          mp = (5 * doy + 2) div 153;
          d = doy - (153 * mp + 2) div 5 + 1;
          m = (if mp < 10 then mp + 3 else mp - 9);
          y = yoe + era * 400 + (if m \<le> 2 then 1 else 0)
      in (y, m, d))"

definition days_from_civil :: "int \<Rightarrow> int \<Rightarrow> int \<Rightarrow> int" where
  "days_from_civil y0 m d =
     (let y = (if m \<le> 2 then y0 - 1 else y0);
          era = y div 400;
          yoe = y - era * 400;
          doy = (153 * (if m > 2 then m - 3 else m + 9) + 2) div 5 + d - 1;
          doe = yoe * 365 + yoe div 4 - yoe div 100 + doy
      in era * 146097 + doe - 719468)"

definition MakeDay :: "int \<Rightarrow> int \<Rightarrow> int \<Rightarrow> int" where
  "MakeDay year month date = days_from_civil (year + month div 12) (month mod 12 + 1) 1 + date - 1"

definition TimeClip :: "int \<Rightarrow> jsdate" where
  "TimeClip t = (if \<bar>t\<bar> \<le> 8640000000000000 then Some t else None)"

text \<open>\<^verbatim>\<open>Number(s)\<close> for a string of decimal digits.\<close>

definition number_of_digits :: "string \<Rightarrow> int" where
  "number_of_digits s = foldl (\<lambda>n c. 10 * n + (int (of_char c) - 48)) 0 s"

text \<open>\<^verbatim>\<open>LocalTime(t)\<close> and \<^verbatim>\<open>UTC(t)\<close>.\<close>

definition LocalTime :: "(int \<Rightarrow> bool \<Rightarrow> int) \<Rightarrow> int \<Rightarrow> int" where
  "LocalTime tza t = t + tza t True"

definition UTC :: "(int \<Rightarrow> bool \<Rightarrow> int) \<Rightarrow> int \<Rightarrow> int" where
  "UTC tza t = t - tza t False"

text \<open>\<^verbatim>\<open>new Date(year, monthIndex, day)\<close>: local midnight of that day; a year from
  0 to 99 counts from 1900.\<close>

definition new_Date_ymd :: "(int \<Rightarrow> bool \<Rightarrow> int) \<Rightarrow> int \<Rightarrow> int \<Rightarrow> int \<Rightarrow> jsdate" where
  "new_Date_ymd tza year monthIndex day =
     (let yr = (if 0 \<le> year \<and> year \<le> 99 then 1900 + year else year)
      in TimeClip (UTC tza (MakeDay yr monthIndex day * msPerDay)))"

definition getFullYear :: "(int \<Rightarrow> bool \<Rightarrow> int) \<Rightarrow> jsdate \<Rightarrow> int option" where
  "getFullYear tza d = map_option (\<lambda>t. fst (civil_from_days (LocalTime tza t div msPerDay))) d"

definition getMonth :: "(int \<Rightarrow> bool \<Rightarrow> int) \<Rightarrow> jsdate \<Rightarrow> int option" where
  "getMonth tza d = map_option (\<lambda>t. fst (snd (civil_from_days (LocalTime tza t div msPerDay))) - 1) d"

definition getDate :: "(int \<Rightarrow> bool \<Rightarrow> int) \<Rightarrow> jsdate \<Rightarrow> int option" where
  "getDate tza d = map_option (\<lambda>t. snd (snd (civil_from_days (LocalTime tza t div msPerDay)))) d"

text \<open>\<^verbatim>\<open>String(x)\<close> for a number that is an integer or \<^verbatim>\<open>NaN\<close>.\<close>

definition String_number :: "int option \<Rightarrow> string" where
  "String_number x = (case x of None \<Rightarrow> ''NaN'' | Some n \<Rightarrow> string_of_int n)"

definition formatDateEuro :: "(int \<Rightarrow> bool \<Rightarrow> int) \<Rightarrow> jsdate \<Rightarrow> string" where
  "formatDateEuro tza dateObj =
     (let day = padStart0 2 (String_number (getDate tza dateObj));
          month = padStart0 2 (String_number (map_option (\<lambda>m. m + 1) (getMonth tza dateObj)));
          year = String_number (getFullYear tza dateObj)
      in day @ ''-'' @ month @ ''-'' @ year)"

text \<open>\<^verbatim>\<open>Date.prototype.toISOString\<close>; it throws a \<^verbatim>\<open>RangeError\<close> on an
  invalid date, which is \<open>None\<close> here.\<close>

definition toISOString :: "jsdate \<Rightarrow> string option" where
  "toISOString d =
     (case d of
        None \<Rightarrow> None
      | Some t \<Rightarrow>
          let (y, m, dd) = civil_from_days (t div msPerDay);
              ms = t mod msPerDay;
              year = (if 0 \<le> y \<and> y \<le> 9999 then padStart0 4 (string_of_int y)
                      else (if y < 0 then ''-'' else ''+'') @ padStart0 6 (string_of_int \<bar>y\<bar>))
          in Some (year @ ''-'' @ padStart0 2 (string_of_int m) @ ''-'' @ padStart0 2 (string_of_int dd)
               @ ''T'' @ padStart0 2 (string_of_int (ms div 3600000))
               @ '':'' @ padStart0 2 (string_of_int (ms div 60000 mod 60))
               @ '':'' @ padStart0 2 (string_of_int (ms div 1000 mod 60))
               @ ''.'' @ padStart0 3 (string_of_int (ms mod 1000)) @ ''Z''))"


subsection \<open>Data\<close>

text \<open>A value that is \<^verbatim>\<open>null\<close>, \<^verbatim>\<open>undefined\<close> or a string.\<close>

datatype js_value = JNull | JUndefined | JString string

text \<open>Truthiness, and the conversion to a string that a template literal applies.\<close>

definition truthy :: "js_value \<Rightarrow> bool" where
  "truthy v = (case v of JString s \<Rightarrow> s \<noteq> [] | _ \<Rightarrow> False)"

definition String_value :: "js_value \<Rightarrow> string" where
  "String_value v = (case v of JNull \<Rightarrow> ''null'' | JUndefined \<Rightarrow> ''undefined'' | JString s \<Rightarrow> s)"

text \<open>The exceptions that the script and its libraries raise.\<close>

datatype error =
    NoFrontmatter string
  | YAMLException
  | TypeError
  | RangeError
  | ReadError string

text \<open>
  The value of the \<^verbatim>\<open>date\<close> key of a frontmatter: a string, a \<^verbatim>\<open>Date\<close>
  object (what js-yaml makes of an unquoted timestamp; its time value) or a
  number.  The keys the script reads have the types that section 3 of the
  specification gives them; a key that is absent is \<open>None\<close>.
\<close>

datatype fm_date = DateString string | DateObject int | DateNumber int

record frontmatter =
  fm_title :: "string option"
  fm_date :: "fm_date option"
  fm_description :: "string option"
  fm_tags :: "string list option"

text \<open>
  What \<^verbatim>\<open>yaml.load\<close> returns: \<^verbatim>\<open>undefined\<close> or \<^verbatim>\<open>null\<close> for an empty
  document, a mapping, or a scalar or a sequence, which has none of the four
  keys.  \<open>properties\<close> is what the constructor reads from the value, \<open>None\<close>
  when reading a property throws.
\<close>

datatype yaml_value = YNull | YMapping frontmatter | YOther

definition properties :: "yaml_value \<Rightarrow> frontmatter option" where
  "properties v =
     (case v of
        YNull \<Rightarrow> None
      | YMapping fm \<Rightarrow> Some fm
      | YOther \<Rightarrow> Some \<lparr>fm_title = None, fm_date = None, fm_description = None, fm_tags = None\<rparr>)"

record article =
  content :: string
  title :: string
  date :: jsdate
  description :: string
  tags :: "string list"
  filePath :: string
  languages :: "string list"
  images :: "string list"
  isProject :: bool
  projectName :: js_value
  url :: string
  readTime :: nat

text \<open>
  marked calls a hook of the renderer with one argument, the token; this is
  the convention under which \<^verbatim>\<open>renderer.code\<close> reads \<^verbatim>\<open>code.lang\<close> and
  \<^verbatim>\<open>code.text\<close>.  The token of a fenced code block and the token of an
  image:
\<close>

record code_token =
  tok_lang :: "string option"
  tok_text :: string

record image_token =
  img_href :: string
  img_title :: "string option"
  img_text :: string

text \<open>
  What marked makes of a Markdown text, as far as the script can observe it: a
  sequence, in document order, of fenced code blocks and images, which it
  renders through the two hooks of the script, and of the HTML that its own
  rules produce in between.
\<close>

datatype md_token =
    Html string
  | Code code_token
  | Image image_token

text \<open>
  A value that \<^verbatim>\<open>renderer.image\<close> may find in one of its three parameters: a
  string, an image token, \<^verbatim>\<open>null\<close> or \<^verbatim>\<open>undefined\<close>; its conversion to a
  string (by a template literal or by \<^verbatim>\<open>RegExp.prototype.test\<close>) and its
  truthiness.
\<close>

datatype hook_arg = AString string | AToken image_token | ANull | AUndefined

definition String_arg :: "hook_arg \<Rightarrow> string" where
  "String_arg x =
     (case x of
        AString s \<Rightarrow> s
      | AToken t \<Rightarrow> ''[object Object]''
      | ANull \<Rightarrow> ''null''
      | AUndefined \<Rightarrow> ''undefined'')"

definition truthy_arg :: "hook_arg \<Rightarrow> bool" where
  "truthy_arg x = (case x of AString s \<Rightarrow> s \<noteq> [] | AToken t \<Rightarrow> True | _ \<Rightarrow> False)"

text \<open>
  The libraries and the host:
  \<^item> \<open>SUPPORTED_LANGUAGES\<close> is \<^verbatim>\<open>hljs.listLanguages()\<close>;
  \<^item> \<open>hljs_highlight code language\<close> is the \<^verbatim>\<open>value\<close> of the result of
    \<^verbatim>\<open>hljs.highlight\<close>, or \<open>None\<close> when it throws;
  \<^item> \<open>marked_lexer\<close> is the tokens that marked finds in a Markdown text;
  \<^item> \<open>marked_image\<close> is the \<^verbatim>\<open>image\<close> method of a fresh \<^verbatim>\<open>marked.Renderer\<close>,
    applied to the three arguments that it is given;
  \<^item> \<open>yaml_load\<close> is \<^verbatim>\<open>yaml.load\<close>, which throws on a document that is not YAML;
  \<^item> \<open>Date_parse\<close> is the time value of \<^verbatim>\<open>new Date(s)\<close> for a string \<open>s\<close>;
  \<^item> \<open>LocalTZA\<close> is the time zone of the host;
  \<^item> \<open>Object_prototype\<close> gives, for the name of a property that every object
    inherits (\<^verbatim>\<open>constructor\<close>, \<^verbatim>\<open>toString\<close>, ...), the string that the
    property's value converts to.
\<close>

record env =
  SUPPORTED_LANGUAGES :: "string list"
  hljs_getLanguage :: "string \<Rightarrow> bool"
  hljs_highlight :: "string \<Rightarrow> string \<Rightarrow> string option"
  marked_lexer :: "string \<Rightarrow> md_token list"
  marked_image :: "hook_arg \<Rightarrow> hook_arg \<Rightarrow> hook_arg \<Rightarrow> error + string"
  yaml_load :: "string \<Rightarrow> error + yaml_value"
  Date_parse :: "string \<Rightarrow> jsdate"
  LocalTZA :: "int \<Rightarrow> bool \<Rightarrow> int"
  Object_prototype :: "string \<Rightarrow> string option"

text \<open>The two module-level variables of the renderer.  A \<^verbatim>\<open>Set\<close> keeps its
  elements in insertion order.\<close>

record renderer_state =
  currentArticleLanguages :: "string list"
  currentArticleForRenderer :: "article option"

definition Set_add :: "'a \<Rightarrow> 'a list \<Rightarrow> 'a list" where
  "Set_add x xs = (if x \<in> set xs then xs else xs @ [x])"

subsection \<open>The renderer hooks\<close>

definition replace_char :: "char \<Rightarrow> string \<Rightarrow> string \<Rightarrow> string" where
  "replace_char c r s = concat (map (\<lambda>x. if x = c then r else [x]) s)"

text \<open>\<^verbatim>\<open>escapeHtml\<close> takes a string or a code token, whose text it then takes.\<close>

datatype escapable = Str string | Tok code_token

definition escapeHtml :: "escapable \<Rightarrow> string" where
  \<open>escapeHtml str0 =
     (let str = (case str0 of Str s \<Rightarrow> s | Tok t \<Rightarrow> tok_text t)
      in replace_char (CHR 0x27) ''&#39;''
           (replace_char (CHR ''"'') ''&quot;''
             (replace_char (CHR ''>'') ''&gt;''
               (replace_char (CHR ''<'') ''&lt;''
                 (replace_char (CHR ''&'') ''&amp;'' str)))))\<close>

text \<open>The copy button that both forms of a code block end with.\<close>

definition highlighted_block :: "string \<Rightarrow> string \<Rightarrow> string \<Rightarrow> string" where
  \<open>highlighted_block language value escaped =
    ''<div class="code-block-wrapper">\<newline>'' @
    ''          <pre data-language="'' @ language @
    ''"><code class="hljs language-'' @ language @
    ''">'' @ value @
    ''</code></pre>\<newline>'' @
    ''          <button class="code-copy-btn" data-code="'' @ escaped @
    ''" aria-label="Copy code">\<newline>'' @
    ''            <svg width="16" height="16" viewBox="0 0 24 24" fill="none" stroke="currentColor" stroke-width="2" stroke-linecap="round" stroke-linejoin="round">\<newline>'' @
    ''              <rect x="9" y="9" width="13" height="13" rx="2" ry="2"></rect>\<newline>'' @
    ''              <path d="M5 15H4a2 2 0 0 1-2-2V4a2 2 0 0 1 2-2h9a2 2 0 0 1 2 2v1"></path>\<newline>'' @
    ''            </svg>\<newline>'' @
    ''            <span class="copy-text">Copy</span>\<newline>'' @
    ''          </button>\<newline>'' @
    ''        </div>''\<close>

definition plain_block :: "string \<Rightarrow> string \<Rightarrow> string \<Rightarrow> string \<Rightarrow> string" where
  \<open>plain_block data_language class_language escapedCode escaped =
    ''<div class="code-block-wrapper">\<newline>'' @
    ''    <pre data-language="'' @ data_language @
    ''"><code class="language-'' @ class_language @
    ''">'' @ escapedCode @
    ''</code></pre>\<newline>'' @
    ''    <button class="code-copy-btn" data-code="'' @ escaped @
    ''" aria-label="Copy code">\<newline>'' @
    ''      <svg width="16" height="16" viewBox="0 0 24 24" fill="none" stroke="currentColor" stroke-width="2" stroke-linecap="round" stroke-linejoin="round">\<newline>'' @
    ''        <rect x="9" y="9" width="13" height="13" rx="2" ry="2"></rect>\<newline>'' @
    ''        <path d="M5 15H4a2 2 0 0 1-2-2V4a2 2 0 0 1 2-2h9a2 2 0 0 1 2 2v1"></path>\<newline>'' @
    ''      </svg>\<newline>'' @
    ''      <span class="copy-text">Copy</span>\<newline>'' @
    ''    </button>\<newline>'' @
    ''  </div>''\<close>

text \<open>
  \<^verbatim>\<open>renderer.code\<close>.  The result is the HTML and the renderer state, to
  which a supported language has been added.  A language tag that is absent or
  empty is falsy.  When \<^verbatim>\<open>hljs.highlight\<close> throws, the exception is caught, a
  warning is printed and control falls through to the plain block.
\<close>

definition renderer_code :: "env \<Rightarrow> renderer_state \<Rightarrow> code_token \<Rightarrow> string \<times> renderer_state" where
  "renderer_code e st code =
     (let language = tok_lang code;
          l = (case language of None \<Rightarrow> [] | Some x \<Rightarrow> x);
          supported = (l \<noteq> [] \<and> l \<in> set (SUPPORTED_LANGUAGES e));
          st' = (if supported
                 then st\<lparr>currentArticleLanguages := Set_add l (currentArticleLanguages st)\<rparr>
                 else st);
          result = (if supported \<and> hljs_getLanguage e l then hljs_highlight e (tok_text code) l else None)
      in case result of
           Some v \<Rightarrow> (highlighted_block l v (escapeHtml (Tok code)), st')
         | None \<Rightarrow>
             (let escapedCode = escapeHtml (Tok code)
              in (plain_block (if l \<noteq> [] then l else ''text'') l escapedCode (escapeHtml (Tok code)), st')))"

text \<open>\<^verbatim>\<open>/^(https?:)?\/\//\<close>\<close>

definition re_absolute_url :: "string \<Rightarrow> unit option" where
  "re_absolute_url =
     opt (\<lambda>k. lit ''http'' (opt (lit ''s'') (lit '':'' k))) (lit ''//'' (\<lambda>_. Some ()))"

text \<open>
  \<^verbatim>\<open>renderer.image\<close>, for whatever it finds in its three parameters; it
  reads the renderer state and leaves it as it is.  A string has the method
  \<^verbatim>\<open>startsWith\<close>; a token has not, and calling it throws a \<^verbatim>\<open>TypeError\<close>,
  as does reading a property of \<^verbatim>\<open>null\<close> or \<^verbatim>\<open>undefined\<close>.
\<close>

definition renderer_image ::
  "env \<Rightarrow> renderer_state \<Rightarrow> hook_arg \<Rightarrow> hook_arg \<Rightarrow> hook_arg \<Rightarrow> error + string" where
  \<open>renderer_image e st href ttl alt =
     (case currentArticleForRenderer st of
        Some a \<Rightarrow>
          if re_absolute_url (String_arg href) = None then
            (case href of
               AString h \<Rightarrow>
                 (let imageName = (if startsWith h ''./'' then drop 2 h else h);
                      finalPath = join [url a, imageName]
                  in Inr (''<img src="'' @ finalPath @ ''" alt="'' @ String_arg alt @ ''"'' @
                       (if truthy_arg ttl then '' title="'' @ String_arg ttl @ ''"'' else []) @ ''>''))
             | _ \<Rightarrow> Inl TypeError)
          else marked_image e href ttl alt
      | None \<Rightarrow> marked_image e href ttl alt)\<close>

text \<open>
  \<^verbatim>\<open>marked.parse\<close> with the renderer of the script in use: the rendered
  pieces in document order, the state threaded through the hooks.  Each hook
  is called with the token as its one argument, so that the second and the
  third parameter of \<^verbatim>\<open>renderer.image\<close> are \<^verbatim>\<open>undefined\<close>.  An exception of
  a hook ends \<^verbatim>\<open>marked.parse\<close>, which throws it on.
\<close>

fun render_tokens :: "env \<Rightarrow> renderer_state \<Rightarrow> md_token list \<Rightarrow> error + string \<times> renderer_state" where
  "render_tokens e st [] = Inr ([], st)"
| "render_tokens e st (Html h # ts) =
     (case render_tokens e st ts of
        Inl err \<Rightarrow> Inl err
      | Inr (out, st') \<Rightarrow> Inr (h @ out, st'))"
| "render_tokens e st (Code c # ts) =
     (let (h, st1) = renderer_code e st c
      in case render_tokens e st1 ts of
           Inl err \<Rightarrow> Inl err
         | Inr (out, st') \<Rightarrow> Inr (h @ out, st'))"
| "render_tokens e st (Image i # ts) =
     (case renderer_image e st (AToken i) AUndefined AUndefined of
        Inl err \<Rightarrow> Inl err
      | Inr h \<Rightarrow>
          (case render_tokens e st ts of
             Inl err \<Rightarrow> Inl err
           | Inr (out, st') \<Rightarrow> Inr (h @ out, st')))"

definition marked_parse :: "env \<Rightarrow> renderer_state \<Rightarrow> string \<Rightarrow> error + string \<times> renderer_state" where
  "marked_parse e st src = render_tokens e st (marked_lexer e src)"


subsection \<open>The class \<^verbatim>\<open>Article\<close>\<close>

text \<open>\<^verbatim>\<open>/^\d{2}-\d{2}-\d{4}$/\<close>\<close>

definition re_euro_date :: "string \<Rightarrow> bool" where
  "re_euro_date s =
     (case s of
        [a, b, c, d, e, f, g, h, i, j] \<Rightarrow>
          is_digit a \<and> is_digit b \<and> c = CHR ''-'' \<and> is_digit d \<and> is_digit e \<and> f = CHR ''-''
          \<and> is_digit g \<and> is_digit h \<and> is_digit i \<and> is_digit j
      | _ \<Rightarrow> False)"

text \<open>Whether \<^verbatim>\<open>frontmatter.date\<close> is truthy: an absent key, the empty string and
  the number 0 are not.\<close>

definition date_given :: "fm_date option \<Rightarrow> bool" where
  "date_given d =
     (case d of
        None \<Rightarrow> False
      | Some (DateString s) \<Rightarrow> s \<noteq> []
      | Some (DateObject t) \<Rightarrow> True
      | Some (DateNumber n) \<Rightarrow> n \<noteq> 0)"

text \<open>The date of an article; \<open>now\<close> is the value of \<^verbatim>\<open>Date.now()\<close>.\<close>

definition article_date :: "env \<Rightarrow> int \<Rightarrow> fm_date option \<Rightarrow> jsdate" where
  "article_date e now d =
     (let dateInput = (if date_given d then the d else DateNumber now)
      in case dateInput of
           DateString s \<Rightarrow>
             if re_euro_date s then
               (case split_on CHR ''-'' [] s of
                  [day, month, year] \<Rightarrow>
                    new_Date_ymd (LocalTZA e) (number_of_digits year) (number_of_digits month - 1)
                      (number_of_digits day)
                | _ \<Rightarrow> None)
             else Date_parse e s
         | DateObject t \<Rightarrow> TimeClip t
         | DateNumber n \<Rightarrow> TimeClip n)"

text \<open>\<^verbatim>\<open>content.split(/\s+/).filter(Boolean).length\<close>\<close>

definition wordCount :: "string \<Rightarrow> nat" where
  "wordCount body = length (filter (\<lambda>w. w \<noteq> []) (js_split re_spaces [] body))"

text \<open>
  The constructor.  Reading a key of a frontmatter that is \<^verbatim>\<open>undefined\<close> or
  \<^verbatim>\<open>null\<close> throws a \<^verbatim>\<open>TypeError\<close>; a scalar or a sequence has none of the
  keys and gives the article of an empty mapping.  \<^verbatim>\<open>Math.ceil(wordCount / 200)\<close> divides
  floating-point numbers; the quotient of a string's word count by 200 is
  far from the range in which that differs from the exact quotient.
\<close>

definition new_Article :: "env \<Rightarrow> int \<Rightarrow> string \<Rightarrow> yaml_value \<Rightarrow> string \<Rightarrow> error + article" where
  "new_Article e now body frontmatter path =
     (case properties frontmatter of
        None \<Rightarrow> Inl TypeError
      | Some fm \<Rightarrow>
          let d = article_date e now (fm_date fm);
              pathParts = split_on CHR ''/'' [] path;
              isProj = (''projects'' \<in> set pathParts);
              i = length (takeWhile (\<lambda>p. p \<noteq> ''projects'') pathParts) + 1;
              proj = (if isProj then (if i < length pathParts then JString (pathParts ! i) else JUndefined)
                      else JNull);
              fileName = basename_suffix path ''.md''
          in Inr \<lparr>
               content = body,
               title = (case fm_title fm of None \<Rightarrow> ''Untitled'' | Some t \<Rightarrow> if t = [] then ''Untitled'' else t),
               date = d,
               description = (case fm_description fm of None \<Rightarrow> [] | Some x \<Rightarrow> x),
               tags = (case fm_tags fm of None \<Rightarrow> [] | Some x \<Rightarrow> x),
               filePath = path,
               languages = [],
               images = [],
               isProject = isProj,
               projectName = proj,
               url = (if isProj then ''/articles/projects/'' @ String_value proj @ ''/'' @ fileName
                      else ''/articles/'' @ String_number (getFullYear (LocalTZA e) d) @ ''/'' @ fileName),
               readTime = nat \<lceil>real (wordCount body) / 200\<rceil>
             \<rparr>)"

subsection \<open>\<^verbatim>\<open>parseMarkdownFile\<close>\<close>

text \<open>\<^verbatim>\<open>/^---\s*\n(.*?)\n---\s*\n(.*)/s\<close>, matched at the start of the text; the
  result is the pair of the two capture groups.\<close>

definition frontmatterRegex :: "string \<Rightarrow> (string \<times> string) option" where
  "frontmatterRegex =
     lit ''---'' (star_greedy is_space (\<lambda>_.
       lit ''\<newline>'' (star_lazy (\<lambda>_. True) (\<lambda>fm.
         lit ''\<newline>---'' (star_greedy is_space (\<lambda>_.
           lit ''\<newline>'' (star_greedy (\<lambda>_. True) (\<lambda>body _. Some (fm, body)) [])) [])) [])) [])"

text \<open>\<^verbatim>\<open>/!\[.*?\]\((?!https?:\/\/)(.*?)\)/g\<close>; the result is the capture group and
  the text after the match.\<close>

definition imageRegex :: "string \<Rightarrow> (string \<times> string) option" where
  "imageRegex =
     lit ''!['' (star_lazy is_dot (\<lambda>_.
       lit '']('' (not_ahead (\<lambda>k. lit ''http'' (opt (lit ''s'') (lit ''://'' k)))
         (star_lazy is_dot (\<lambda>cap. lit '')'' (\<lambda>rest. Some (cap, rest))) []))) [])"

text \<open>
  The file's text is \<open>None\<close> when \<^verbatim>\<open>readFile\<close> rejects; \<open>now\<close> is what
  \<^verbatim>\<open>Date.now()\<close> returns during the call.  The renderer state goes in and
  comes out: the language set is cleared, the article (with its images
  recorded) is the current one while marked runs, and the languages seen are
  copied into the article.  An exception of \<^verbatim>\<open>marked.parse\<close> is an exception
  of the call.
\<close>

definition parseMarkdownFile ::
  "env \<Rightarrow> int \<Rightarrow> renderer_state \<Rightarrow> string \<Rightarrow> string option \<Rightarrow> error + article \<times> renderer_state" where
  "parseMarkdownFile e now st path file =
     (case file of
        None \<Rightarrow> Inl (ReadError path)
      | Some text \<Rightarrow>
          (case frontmatterRegex text of
             None \<Rightarrow> Inl (NoFrontmatter path)
           | Some (fmText, markdownContent) \<Rightarrow>
               (case yaml_load e fmText of
                  Inl err \<Rightarrow> Inl err
                | Inr frontmatter \<Rightarrow>
                    (case new_Article e now markdownContent frontmatter path of
                       Inl err \<Rightarrow> Inl err
                     | Inr a0 \<Rightarrow>
                         let a1 = a0\<lparr>images := images a0 @ exec_all imageRegex markdownContent\<rparr>;
                             st1 = st\<lparr>currentArticleLanguages := []\<rparr>;
                             st2 = st1\<lparr>currentArticleForRenderer := Some a1\<rparr>
                         in case marked_parse e st2 (content a1) of
                              Inl err \<Rightarrow> Inl err
                            | Inr (html, st3) \<Rightarrow>
                                let st4 = st3\<lparr>currentArticleForRenderer := None\<rparr>;
                                    a2 = a1\<lparr>languages := currentArticleLanguages st4\<rparr>
                                in Inr (a2, st4)))))"

subsection \<open>Templates\<close>

text \<open>\<^verbatim>\<open>/\{\{(\w+)\}\}/g\<close>; the result is the key and the text after the match.\<close>

definition re_placeholder :: "string \<Rightarrow> (string \<times> string) option" where
  "re_placeholder = lit ''{{'' (plus_greedy is_word (\<lambda>key. lit ''}}'' (\<lambda>rest. Some (key, rest))))"

text \<open>\<^verbatim>\<open>data[key] || ''\<close> for an object literal \<open>data\<close> of strings: the object's own
  property, else the property that it inherits, else the empty string.\<close>

definition data_get :: "(string \<Rightarrow> string option) \<Rightarrow> (string \<Rightarrow> string option) \<Rightarrow> string \<Rightarrow> string" where
  "data_get proto data key =
     (case data key of
        Some v \<Rightarrow> v
      | None \<Rightarrow> (case proto key of Some v \<Rightarrow> v | None \<Rightarrow> []))"

definition renderTemplate :: "env \<Rightarrow> string \<Rightarrow> (string \<Rightarrow> string option) \<Rightarrow> string" where
  "renderTemplate e template data =
     gsub (\<lambda>s. map_option (\<lambda>(key, rest). (data_get (Object_prototype e) data key, rest)) (re_placeholder s))
       template"

text \<open>The five templates that \<^verbatim>\<open>loadTemplates\<close> reads.\<close>

record templates =
  tpl_layout :: string
  tpl_index :: string
  tpl_article :: string
  tpl_projects :: string
  tpl_404 :: string


subsection \<open>Pages\<close>

definition project_badge :: "article \<Rightarrow> string" where
  \<open>project_badge a = ''<span class="project-badge">'' @ String_value (projectName a) @ ''</span>''\<close>

definition tags_container :: "article \<Rightarrow> string" where
  \<open>tags_container a =
     (if length (tags a) > 0 then
        ''<div class="tags-container">'' @
        concat (map (\<lambda>tag. ''<span class="tag-badge">'' @ tag @ ''</span>'') (tags a)) @ ''</div>''
      else [])\<close>

definition readTime_label :: "article \<Rightarrow> string" where
  "readTime_label a = string_of_nat (readTime a) @ '' min read''"

text \<open>\<^verbatim>\<open>generateArticleHTML\<close>; marked runs with the article as the current one.\<close>

definition generateArticleHTML ::
  "env \<Rightarrow> renderer_state \<Rightarrow> article \<Rightarrow> templates \<Rightarrow> string \<Rightarrow> error + string \<times> renderer_state" where
  \<open>generateArticleHTML e st a tpls styles =
     (let formattedDate = formatDateEuro (LocalTZA e) (date a);
          st1 = st\<lparr>currentArticleForRenderer := Some a\<rparr>
      in case marked_parse e st1 (content a) of
           Inl err \<Rightarrow> Inl err
         | Inr (htmlContent, st2) \<Rightarrow>
     (let st3 = st2\<lparr>currentArticleForRenderer := None\<rparr>;
          projectBadge = (if truthy (projectName a) then project_badge a else []);
          tagsBlock = tags_container a;
          descriptionBlock =
            (if description a \<noteq> [] then ''<p class="article-description">'' @ description a @ ''</p>''
             else []);
          articleContent = renderTemplate e (tpl_article tpls) (map_of [
            (''title'', title a),
            (''content'', htmlContent),
            (''date'', formattedDate),
            (''readTime'', readTime_label a),
            (''projectBadge'', projectBadge),
            (''tagsBlock'', tagsBlock),
            (''descriptionBlock'', descriptionBlock)])
      in Inr (renderTemplate e (tpl_layout tpls) (map_of [
            (''title'', title a),
            (''description'', description a),
            (''content'', articleContent),
            (''styles'', styles)]), st3)))\<close>

text \<open>The regular expressions of the two excerpts.\<close>

text \<open>\<^verbatim>\<open>/```[\s\S]*?```/g\<close>\<close>

definition re_fence :: "string \<Rightarrow> string option" where
  "re_fence =
     lit (replicate 3 (CHR 0x60)) (star_lazy (\<lambda>_. True) (\<lambda>_. lit (replicate 3 (CHR 0x60)) Some) [])"

text \<open>\<^verbatim>\<open>/!\[.*?\]\(.*?\)/g\<close>\<close>

definition re_image_syntax :: "string \<Rightarrow> string option" where
  "re_image_syntax =
     lit ''!['' (star_lazy is_dot (\<lambda>_. lit '']('' (star_lazy is_dot (\<lambda>_. lit '')'' Some) [])) [])"

text \<open>\<^verbatim>\<open>/`[^`]*`/g\<close>\<close>

definition re_inline_code :: "string \<Rightarrow> string option" where
  "re_inline_code =
     lit [CHR 0x60] (star_greedy (\<lambda>c. c \<noteq> CHR 0x60) (\<lambda>_. lit [CHR 0x60] Some) [])"

text \<open>\<^verbatim>\<open>/#{1,6}\s+/g\<close>\<close>

definition re_heading :: "string \<Rightarrow> string option" where
  "re_heading =
     lit ''#'' (upto_greedy 5 (\<lambda>c. c = CHR ''#'') (\<lambda>_. plus_greedy is_space (\<lambda>_ rest. Some rest)) [])"

text \<open>\<^verbatim>\<open>/\*\*([^*]+)\*\*/g\<close> and \<^verbatim>\<open>/\*([^*]+)\*/g\<close>, replaced by \<^verbatim>\<open>$1\<close>.\<close>

definition re_bold :: "string \<Rightarrow> (string \<times> string) option" where
  "re_bold = lit ''**'' (plus_greedy (\<lambda>c. c \<noteq> CHR ''*'') (\<lambda>cap. lit ''**'' (\<lambda>rest. Some (cap, rest))))"

definition re_italic :: "string \<Rightarrow> (string \<times> string) option" where
  "re_italic = lit ''*'' (plus_greedy (\<lambda>c. c \<noteq> CHR ''*'') (\<lambda>cap. lit ''*'' (\<lambda>rest. Some (cap, rest))))"

text \<open>\<^verbatim>\<open>/\[([^\]]+)\]\([^)]+\)/g\<close>, replaced by \<^verbatim>\<open>$1\<close>.\<close>

definition re_link :: "string \<Rightarrow> (string \<times> string) option" where
  "re_link =
     lit ''['' (plus_greedy (\<lambda>c. c \<noteq> CHR '']'') (\<lambda>cap.
       lit '']('' (plus_greedy (\<lambda>c. c \<noteq> CHR '')'') (\<lambda>_. lit '')'' (\<lambda>rest. Some (cap, rest))))))"

text \<open>\<^verbatim>\<open>/\n+/g\<close>\<close>

definition re_newlines :: "string \<Rightarrow> string option" where
  "re_newlines = plus_greedy (\<lambda>c. c = CHR 0x0A) (\<lambda>_ rest. Some rest)"

text \<open>\<^verbatim>\<open>/<[^>]*>/g\<close>\<close>

definition re_tag :: "string \<Rightarrow> string option" where
  "re_tag = lit ''<'' (star_greedy (\<lambda>c. c \<noteq> CHR ''>'') (\<lambda>_. lit ''>'' Some) [])"

text \<open>\<^verbatim>\<open>cleanContent\<close> of an index card.\<close>

definition cleanContent :: "string \<Rightarrow> string" where
  "cleanContent body =
     substring0 100 (trim
       (gsub (\<lambda>s. map_option (Pair '' '') (re_spaces s))
       (gsub (\<lambda>s. map_option (Pair '' '') (re_newlines s))
       (filter (\<lambda>c. c \<notin> set ''>-*+'')
       (gsub re_link
       (gsub re_italic
       (gsub re_bold
       (remove_all re_heading
       (remove_all re_inline_code
       (remove_all re_image_syntax
       (remove_all re_fence body)))))))))))"

definition escapeAttr :: "string \<Rightarrow> string" where
  \<open>escapeAttr str = (if str \<noteq> [] then replace_char (CHR ''"'') ''&quot;'' str else [])\<close>

text \<open>One card of the index page; \<open>None\<close> when \<^verbatim>\<open>toISOString\<close> throws.\<close>

definition index_card :: "env \<Rightarrow> article \<Rightarrow> string option" where
  \<open>index_card e a =
     (let formattedDate = formatDateEuro (LocalTZA e) (date a);
          projectBadge = (if isProject a then project_badge a else []);
          tagsList = tags_container a
      in case toISOString (date a) of
           None \<Rightarrow> None
         | Some isoDate \<Rightarrow> Some (
    ''\<newline>'' @
    ''      <article class="article-card"\<newline>'' @
    ''               data-title="'' @ escapeAttr (toLowerCase (title a)) @
    ''"\<newline>'' @
    ''               data-content="'' @ escapeAttr (toLowerCase (cleanContent (content a))) @
    ''"\<newline>'' @
    ''               data-project="'' @
       escapeAttr (if truthy (projectName a) then String_value (projectName a) else []) @
    ''"\<newline>'' @
    ''               data-tags="'' @ escapeAttr (toLowerCase (join_with '' '' (tags a))) @
    ''">\<newline>'' @
    ''        <div class="article-meta">\<newline>'' @
    ''          <time datetime="'' @ isoDate @
    ''">'' @ formattedDate @
    ''</time>\<newline>'' @
    ''          <span class="meta-separator">'' @
    [CHR 0xB7] @
    ''</span>\<newline>'' @
    ''          <span class="read-time">'' @ readTime_label a @
    ''</span>\<newline>'' @
    ''          '' @ projectBadge @
    ''\<newline>'' @
    ''        </div>\<newline>'' @
    ''        <h2><a href="'' @ url a @
    ''">'' @ title a @
    ''</a></h2>\<newline>'' @
    ''        <p class="article-description">'' @ description a @
    ''</p>\<newline>'' @
    ''        '' @ tagsList @
    ''\<newline>'' @
    ''      </article>\<newline>'' @
    ''    ''))\<close>

text \<open>
  \<^verbatim>\<open>articles.sort((a, b) => b.date - a.date)\<close>: a stable sort by descending
  date, in place.  With an invalid date the comparator yields \<^verbatim>\<open>NaN\<close> and the
  order is the engine's; \<^verbatim>\<open>toISOString\<close> then throws on that article whatever
  the order, so the key of an invalid date does not show in any result.
\<close>

definition date_key :: "article \<Rightarrow> int" where
  "date_key a = (case date a of Some t \<Rightarrow> - t | None \<Rightarrow> 0)"

definition sort_by_date_desc :: "article list \<Rightarrow> article list" where
  "sort_by_date_desc articles = sort_key date_key articles"

text \<open>
  \<^verbatim>\<open>generateIndexHTML\<close>.  \<^verbatim>\<open>Array.prototype.sort\<close> sorts the array that it is
  called on and returns that same array, so the caller's \<^verbatim>\<open>articles\<close> is sorted
  afterwards: the result is the page and the array as the call leaves it.
\<close>

definition generateIndexHTML :: "env \<Rightarrow> article list \<Rightarrow> templates \<Rightarrow> string \<Rightarrow> error + string \<times> article list" where
  \<open>generateIndexHTML e articles tpls styles =
     (let sortedArticles = sort_by_date_desc articles
      in case those (map (index_card e) sortedArticles) of
           None \<Rightarrow> Inl RangeError
         | Some cards \<Rightarrow>
             let articlesList = concat cards;
                 indexContent = renderTemplate e (tpl_index tpls) (map_of [(''articles'', articlesList)])
             in Inr (renderTemplate e (tpl_layout tpls) (map_of [
                   (''title'', ''Albert BF'' @ [CHR 0x27] @ ''s Blog''),
                   (''description'', ''My personal minimalist technical blog''),
                   (''content'', indexContent),
                   (''styles'', styles)]), sortedArticles))\<close>

text \<open>The \<^verbatim>\<open>Map\<close> from project names to article arrays, in insertion order.\<close>

definition projectsMap_push :: "article \<Rightarrow> (js_value \<times> article list) list \<Rightarrow> (js_value \<times> article list) list" where
  "projectsMap_push a m =
     (if projectName a \<in> fst ` set m
      then map (\<lambda>(k, arts). if k = projectName a then (k, arts @ [a]) else (k, arts)) m
      else m @ [(projectName a, [a])])"

definition project_article :: "env \<Rightarrow> article \<Rightarrow> string option" where
  \<open>project_article e a =
     (let formattedDate = formatDateEuro (LocalTZA e) (date a)
      in case toISOString (date a) of
           None \<Rightarrow> None
         | Some isoDate \<Rightarrow> Some (
    ''\<newline>'' @
    ''        <li class="project-article">\<newline>'' @
    ''          <a href="'' @ url a @
    ''">'' @ title a @
    ''</a>\<newline>'' @
    ''          <div class="project-article-meta">\<newline>'' @
    ''            <time datetime="'' @ isoDate @
    ''">'' @ formattedDate @
    ''</time>\<newline>'' @
    ''            <span class="meta-separator">'' @
    [CHR 0xB7] @
    ''</span>\<newline>'' @
    ''            <span class="read-time">'' @ readTime_label a @
    ''</span>\<newline>'' @
    ''          </div>\<newline>'' @
    ''        </li>\<newline>'' @
    ''      ''))\<close>

definition project_section :: "env \<Rightarrow> js_value \<times> article list \<Rightarrow> string option" where
  \<open>project_section e entry =
     (case those (map (project_article e) (snd entry)) of
        None \<Rightarrow> None
      | Some items \<Rightarrow> Some (
    ''\<newline>'' @
    ''      <div class="project-section minimal-card">\<newline>'' @
    ''        <h2>'' @ String_value (fst entry) @
    ''</h2>\<newline>'' @
    ''        <ul class="project-articles">\<newline>'' @
    ''          '' @ concat items @
    ''\<newline>'' @
    ''        </ul>\<newline>'' @
    ''      </div>\<newline>'' @
    ''    ''))\<close>

text \<open>\<^verbatim>\<open>generateProjectsHTML\<close>; the arrays it sorts are its own.\<close>

definition generateProjectsHTML :: "env \<Rightarrow> article list \<Rightarrow> templates \<Rightarrow> string \<Rightarrow> error + string" where
  \<open>generateProjectsHTML e articles tpls styles =
     (let projectArticles = filter isProject articles;
          projectsMap = foldl (\<lambda>m a. projectsMap_push a m) [] projectArticles;
          sortedMap = map (\<lambda>(k, arts). (k, sort_by_date_desc arts)) projectsMap
      in case those (map (project_section e) sortedMap) of
           None \<Rightarrow> Inl RangeError
         | Some sections \<Rightarrow>
             let projectsList = concat sections;
                 projectsContent = renderTemplate e (tpl_projects tpls) (map_of [(''projects'', projectsList)])
             in Inr (renderTemplate e (tpl_layout tpls) (map_of [
                   (''title'', ''Albert BF'' @ [CHR 0x27] @ ''s Projects''),
                   (''description'', ''A collection of my projects and their related articles''),
                   (''content'', projectsContent),
                   (''styles'', styles)])))\<close>

definition generate404HTML :: "env \<Rightarrow> templates \<Rightarrow> string \<Rightarrow> string" where
  \<open>generate404HTML e tpls styles =
     renderTemplate e (tpl_layout tpls) (map_of [
       (''title'', ''404 - Not Found''),
       (''description'', ''The page you were looking for could not be found.''),
       (''content'', tpl_404 tpls),
       (''styles'', styles)])\<close>

subsection \<open>The search index\<close>

text \<open>One record of \<^verbatim>\<open>search-index.json\<close>; the fields are those of the object
  literal, prefixed.\<close>

record search_record =
  si_title :: string
  si_description :: string
  si_url :: string
  si_date :: string
  si_readTime :: nat
  si_projectName :: js_value
  si_content :: string
  si_languages :: "string list"
  si_tags :: "string list"

text \<open>The \<^verbatim>\<open>content\<close> of a record.\<close>

definition search_content :: "string \<Rightarrow> string" where
  "search_content body =
     substring0 300 (trim
       (gsub (\<lambda>s. map_option (Pair '' '') (re_spaces s))
       (remove_all re_tag
       (remove_all re_image_syntax
       (remove_all re_fence body)))))"

definition search_entry :: "article \<Rightarrow> search_record option" where
  "search_entry a =
     (case toISOString (date a) of
        None \<Rightarrow> None
      | Some isoDate \<Rightarrow> Some \<lparr>
          si_title = title a,
          si_description = description a,
          si_url = url a,
          si_date = isoDate,
          si_readTime = readTime a,
          si_projectName = projectName a,
          si_content = search_content (content a),
          si_languages = languages a,
          si_tags = tags a\<rparr>)"

definition generateSearchIndex :: "article list \<Rightarrow> error + search_record list" where
  "generateSearchIndex articles =
     (case those (map search_entry articles) of
        None \<Rightarrow> Inl RangeError
      | Some records \<Rightarrow> Inr records)"


subsection \<open>\<^verbatim>\<open>build\<close>\<close>

definition ARTICLES_DIR :: string where "ARTICLES_DIR = ''./articles''"
definition TEMPLATES_DIR :: string where "TEMPLATES_DIR = ''./templates''"
definition DIST_DIR :: string where "DIST_DIR = ''./dist''"
definition STYLES_PATH :: string where "STYLES_PATH = ''./src/styles.css''"
definition IMAGES_DIR :: string where "IMAGES_DIR = ''./src/images''"

text \<open>
  What the build reads: \<open>readFile path\<close> is the text of a file, or \<open>None\<close> when
  reading it fails; \<open>markdownFiles\<close> is the array that
  \<^verbatim>\<open>findMarkdownFiles(ARTICLES_DIR)\<close> returns, the paths of the Markdown files
  in the order of the traversal.
\<close>

record site =
  readFile :: "string \<Rightarrow> string option"
  markdownFiles :: "string list"

text \<open>
  What the build does to the output tree, in order.  A \<open>Cp\<close> is an attempt:
  when copying an image fails the error is logged and the build goes on.
  \<open>WriteJson path records\<close> writes \<^verbatim>\<open>JSON.stringify(records, null, 2)\<close>.
\<close>

datatype fs_op =
    Mkdir string
  | WriteFile string string
  | WriteJson string "search_record list"
  | Cp string string
  | CpDir string string

record build_result =
  exit_code :: nat
  fs_ops :: "fs_op list"

definition loadTemplates :: "site \<Rightarrow> templates option" where
  "loadTemplates fs =
     (case (readFile fs (join [TEMPLATES_DIR, ''layout.html'']),
            readFile fs (join [TEMPLATES_DIR, ''index.html'']),
            readFile fs (join [TEMPLATES_DIR, ''article.html'']),
            readFile fs (join [TEMPLATES_DIR, ''projects.html'']),
            readFile fs (join [TEMPLATES_DIR, ''404.html''])) of
        (Some l, Some i, Some a, Some p, Some n) \<Rightarrow>
          Some \<lparr>tpl_layout = l, tpl_index = i, tpl_article = a, tpl_projects = p, tpl_404 = n\<rparr>
      | _ \<Rightarrow> None)"

text \<open>
  The parsing of all files.  Each call of \<^verbatim>\<open>parseMarkdownFile\<close> runs without
  interruption once its file is read, and the first failure ends the process;
  the files are taken in the order of the array.  \<open>clock path\<close> is what
  \<^verbatim>\<open>Date.now()\<close> returns while the file of that path is parsed.
\<close>

fun parse_files ::
  "env \<Rightarrow> (string \<Rightarrow> int) \<Rightarrow> site \<Rightarrow> renderer_state \<Rightarrow> string list \<Rightarrow> error + article list \<times> renderer_state" where
  "parse_files e clock fs st [] = Inr ([], st)"
| "parse_files e clock fs st (file # files) =
     (case parseMarkdownFile e (clock file) st file (readFile fs file) of
        Inl err \<Rightarrow> Inl err
      | Inr (a, st1) \<Rightarrow>
          (case parse_files e clock fs st1 files of
             Inl err \<Rightarrow> Inl err
           | Inr (arts, st2) \<Rightarrow> Inr (a # arts, st2)))"

definition outputPath :: "article \<Rightarrow> string" where
  "outputPath a = join [DIST_DIR, drop 1 (url a), ''index.html'']"

text \<open>The copies of the images of one article.\<close>

definition copy_images :: "article \<Rightarrow> fs_op list" where
  "copy_images a =
     (let articleSrcDir = dirname (filePath a)
      in map (\<lambda>imagePath. Cp (join [articleSrcDir, imagePath])
                              (join [dirname (outputPath a), basename imagePath]))
           (images a))"

text \<open>
  The loop over the articles: the operations that it got to, and the renderer
  state at its end or the exception that ended it.
\<close>

fun write_articles ::
  "env \<Rightarrow> renderer_state \<Rightarrow> templates \<Rightarrow> string \<Rightarrow> article list \<Rightarrow>
     fs_op list \<times> (error + renderer_state)" where
  "write_articles e st tpls styles [] = ([], Inr st)"
| "write_articles e st tpls styles (a # arts) =
     (case generateArticleHTML e st a tpls styles of
        Inl err \<Rightarrow> ([], Inl err)
      | Inr (articleHTML, st1) \<Rightarrow>
          (let (ops, r) = write_articles e st1 tpls styles arts
           in ([Mkdir (dirname (outputPath a)), WriteFile (outputPath a) articleHTML] @ copy_images a @ ops, r)))"

text \<open>
  \<^verbatim>\<open>build\<close>: the exit code of the process and the operations on the output
  tree that it got to.  Every exception ends the process with exit code 1.
  Writing a file and creating a directory are taken to succeed.
\<close>

definition build :: "env \<Rightarrow> (string \<Rightarrow> int) \<Rightarrow> site \<Rightarrow> build_result" where
  "build e clock fs =
     (let ops0 = [Mkdir DIST_DIR];
          st0 = \<lparr>currentArticleLanguages = [], currentArticleForRenderer = None\<rparr>
      in case readFile fs STYLES_PATH of
           None \<Rightarrow> \<lparr>exit_code = 1, fs_ops = ops0\<rparr>
         | Some styles \<Rightarrow>
        (case loadTemplates fs of
           None \<Rightarrow> \<lparr>exit_code = 1, fs_ops = ops0\<rparr>
         | Some tpls \<Rightarrow>
        (case parse_files e clock fs st0 (markdownFiles fs) of
           Inl err \<Rightarrow> \<lparr>exit_code = 1, fs_ops = ops0\<rparr>
         | Inr (articles, st1) \<Rightarrow>
        (case write_articles e st1 tpls styles articles of
           (ops1, Inl err) \<Rightarrow> \<lparr>exit_code = 1, fs_ops = ops0 @ ops1\<rparr>
         | (ops1, Inr st2) \<Rightarrow>
        (case generateIndexHTML e articles tpls styles of
           Inl err \<Rightarrow> \<lparr>exit_code = 1, fs_ops = ops0 @ ops1\<rparr>
         | Inr (indexHTML, articles') \<Rightarrow>
        (let ops2 = [WriteFile (join [DIST_DIR, ''index.html'']) indexHTML]
         in case generateProjectsHTML e articles' tpls styles of
           Inl err \<Rightarrow> \<lparr>exit_code = 1, fs_ops = ops0 @ ops1 @ ops2\<rparr>
         | Inr projectsHTML \<Rightarrow>
        (let ops3 = [Mkdir (join [DIST_DIR, ''projects'']),
                     WriteFile (join [DIST_DIR, ''projects'', ''index.html'']) projectsHTML];
             destImagesDir = join [DIST_DIR, ''images''];
             ops4 = [Mkdir destImagesDir, CpDir IMAGES_DIR destImagesDir]
         in case generateSearchIndex articles' of
           Inl err \<Rightarrow> \<lparr>exit_code = 1, fs_ops = ops0 @ ops1 @ ops2 @ ops3 @ ops4\<rparr>
         | Inr searchIndex \<Rightarrow>
        (let ops5 = [WriteJson (join [DIST_DIR, ''search-index.json'']) searchIndex];
             ops6 = [WriteFile (join [DIST_DIR, ''404.html'']) (generate404HTML e tpls styles)]
         in \<lparr>exit_code = 0, fs_ops = ops0 @ ops1 @ ops2 @ ops3 @ ops4 @ ops5 @ ops6\<rparr>))))))))"

subsection \<open>Whitespace-delimited tokens\<close>

text \<open>The specification counts the whitespace-delimited tokens of a text: the
  maximal runs of characters that are not whitespace, read off in one scan.\<close>

fun tokens_acc :: "string \<Rightarrow> string \<Rightarrow> string list" where
  "tokens_acc cur [] = (if cur = [] then [] else [cur])"
| "tokens_acc cur (c # cs) =
     (if is_space c then (if cur = [] then tokens_acc [] cs else cur # tokens_acc [] cs)
      else tokens_acc (cur @ [c]) cs)"

definition ws_tokens :: "string \<Rightarrow> string list" where
  "ws_tokens s = tokens_acc [] s"

subsection \<open>HTML escaping and the shape of a code block\<close>

text \<open>The entity that the specification asks for in place of each of the five
  characters \<^verbatim>\<open>&\<close>, \<^verbatim>\<open><\<close>, \<^verbatim>\<open>>\<close>, \<^verbatim>\<open>"\<close> and \<^verbatim>\<open>'\<close>.\<close>

definition html_entity :: "char \<Rightarrow> string" where
  \<open>html_entity c =
     (if c = CHR ''&'' then ''&amp;''
      else if c = CHR ''<'' then ''&lt;''
      else if c = CHR ''>'' then ''&gt;''
      else if c = CHR ''"'' then ''&quot;''
      else if c = CHR 0x27 then ''&#39;''
      else [c])\<close>

text \<open>
  The shape of a code block: the wrapper, in it the \<^verbatim>\<open>pre\<close> element whose
  \<^verbatim>\<open>code\<close> element holds the body, and then the copy button, which carries
  the escaped text and holds an icon and a label.  Each element starts on a
  line of its own; the block is indented by \<open>n\<close> spaces.
\<close>

definition wrapper_open :: string where
  \<open>wrapper_open = ''<div class="code-block-wrapper">''\<close>

definition pre_code :: "string \<Rightarrow> string \<Rightarrow> string \<Rightarrow> string" where
  \<open>pre_code language cls body =
     ''<pre data-language="'' @ language @ ''"><code class="'' @ cls @ ''">'' @ body @ ''</code></pre>''\<close>

definition copy_button :: "string \<Rightarrow> string" where
  \<open>copy_button escaped =
     ''<button class="code-copy-btn" data-code="'' @ escaped @ ''" aria-label="Copy code">''\<close>

definition nl :: "nat \<Rightarrow> string" where
  "nl n = CHR 0x0A # replicate n (CHR '' '')"

definition code_block :: "nat \<Rightarrow> string \<Rightarrow> string \<Rightarrow> string \<Rightarrow> string \<Rightarrow> string" where
  \<open>code_block n language cls body escaped =
     wrapper_open @
     nl (n + 2) @ pre_code language cls body @
     nl (n + 2) @ copy_button escaped @
     nl (n + 4) @ ''<svg width="16" height="16" viewBox="0 0 24 24" fill="none" stroke="currentColor" stroke-width="2" stroke-linecap="round" stroke-linejoin="round">'' @
     nl (n + 6) @ ''<rect x="9" y="9" width="13" height="13" rx="2" ry="2"></rect>'' @
     nl (n + 6) @ ''<path d="M5 15H4a2 2 0 0 1-2-2V4a2 2 0 0 1 2-2h9a2 2 0 0 1 2 2v1"></path>'' @
     nl (n + 4) @ ''</svg>'' @
     nl (n + 4) @ ''<span class="copy-text">Copy</span>'' @
     nl (n + 2) @ ''</button>'' @
     nl n @ ''</div>''\<close>

text \<open>The tokens that are images.\<close>

fun is_image :: "md_token \<Rightarrow> bool" where
  "is_image (Image i) = True"
| "is_image t = False"

subsection \<open>Templates as segments\<close>

text \<open>
  A template read as a sequence of placeholders and of the text between them.
  The text of a well-formed template holds no \<^verbatim>\<open>{{\<close> and does not end
  with \<^verbatim>\<open>{\<close>; the key of a placeholder is a non-empty run of word characters.
\<close>

datatype segment = Text string | Token string

text \<open>
  The placeholder that a text starts with, found by a direct scan: two opening
  braces, the longest run of word characters, which is not empty, and two
  closing braces; the result is the key and the text after the placeholder.
  \<open>segments\<close> reads any template from left to right into its placeholders
  and the characters between them.
\<close>

definition placeholder_at :: "string \<Rightarrow> (string \<times> string) option" where
  "placeholder_at s =
     (case s of
        a # b # r \<Rightarrow>
          (let key = takeWhile is_word r;
               rest = dropWhile is_word r
           in if a = CHR ''{'' \<and> b = CHR ''{'' \<and> key \<noteq> [] \<and> take 2 rest = ''}}''
              then Some (key, drop 2 rest) else None)
      | _ \<Rightarrow> None)"

function segments :: "string \<Rightarrow> segment list" where
  "segments [] = []"
| "segments (c # cs) =
     (case placeholder_at (c # cs) of
        None \<Rightarrow> Text [c] # segments cs
      | Some (key, rest) \<Rightarrow> Token key # segments rest)"
  by pat_completeness auto
termination
proof (relation "measure length")
  show "wf (measure length)" by simp
next
  fix c :: char and cs
  show "(cs, c # cs) \<in> measure length" by simp
next
  fix c :: char and cs x2 key rest
  assume "placeholder_at (c # cs) = Some x2" "(key, rest) = x2"
  then have "placeholder_at (c # cs) = Some (key, rest)" by simp
  then obtain b r where "cs = b # r" "rest = drop 2 (dropWhile is_word r)"
    by (auto simp: placeholder_at_def Let_def split: list.splits if_splits)
  then have "length rest \<le> length r"
    using length_dropWhile_le[of is_word r] by simp
  with \<open>cs = b # r\<close> show "(rest, c # cs) \<in> measure length" by simp
qed

text \<open>The keys of the placeholders, the value that the data provide for a key
  (the empty string when they provide none), and what a segment is to become
  according to the specification.\<close>

definition keys_of :: "segment list \<Rightarrow> string list" where
  "keys_of segs = concat (map (\<lambda>seg. case seg of Text t \<Rightarrow> [] | Token key \<Rightarrow> [key]) segs)"

definition value_of :: "(string \<Rightarrow> string option) \<Rightarrow> string \<Rightarrow> string" where
  "value_of data key = (case data key of None \<Rightarrow> [] | Some v \<Rightarrow> v)"

fun fill :: "(string \<Rightarrow> string option) \<Rightarrow> segment \<Rightarrow> string" where
  "fill data (Text t) = t"
| "fill data (Token key) = value_of data key"

fun plain_text :: "string \<Rightarrow> bool" where
  "plain_text [] = True"
| "plain_text [c] = (c \<noteq> CHR ''{'')"
| "plain_text (c # d # r) = (\<not> (c = CHR ''{'' \<and> d = CHR ''{'') \<and> plain_text (d # r))"

fun well_formed :: "segment \<Rightarrow> bool" where
  "well_formed (Text t) = plain_text t"
| "well_formed (Token key) = (key \<noteq> [] \<and> list_all is_word key)"

fun template_text :: "segment \<Rightarrow> string" where
  "template_text (Text t) = t"
| "template_text (Token key) = ''{{'' @ key @ ''}}''"

text \<open>What a segment becomes: the text itself, the value that the script
  finds for the key.\<close>

fun filled :: "env \<Rightarrow> (string \<Rightarrow> string option) \<Rightarrow> segment \<Rightarrow> string" where
  "filled e data (Text t) = t"
| "filled e data (Token key) = data_get (Object_prototype e) data key"

subsection \<open>Properties of an excerpt, and documents as pieces\<close>

text \<open>
  \<open>no_tag\<close>: no \<^verbatim>\<open><\<close> is followed, anywhere later, by a \<^verbatim>\<open>>\<close>.
  \<open>collapsed\<close>: every whitespace character is a single space between two
  characters that are not whitespace, or the last character.
  \<open>collapse_spaces\<close> is the step \<^verbatim>\<open>.replace(/\s+/g, ' ')\<close> of both excerpts.

  A document read as a sequence of pieces: plain text (which may hold any
  Markdown but no backquote, exclamation mark or \<^verbatim>\<open><\<close>), fenced code blocks,
  images and HTML tags; \<open>source\<close> is the text of a piece and \<open>kept\<close> what the
  specification wants to remain of it.
\<close>

fun no_tag :: "string \<Rightarrow> bool" where
  "no_tag [] = True"
| "no_tag (c # cs) = ((c = CHR ''<'' \<longrightarrow> CHR ''>'' \<notin> set cs) \<and> no_tag cs)"

fun collapsed :: "string \<Rightarrow> bool" where
  "collapsed [] = True"
| "collapsed [c] = (is_space c \<longrightarrow> c = CHR '' '')"
| "collapsed (c # d # r) = ((is_space c \<longrightarrow> c = CHR '' '' \<and> \<not> is_space d) \<and> collapsed (d # r))"

definition collapse_spaces :: "string \<Rightarrow> string" where
  "collapse_spaces = gsub (\<lambda>s. map_option (Pair '' '') (re_spaces s))"


datatype piece = Plain string | Fenced string | Img string string | Tag string

fun source :: "piece \<Rightarrow> string" where
  "source (Plain t) = t"
| "source (Fenced b) = replicate 3 (CHR 0x60) @ b @ replicate 3 (CHR 0x60)"
| "source (Img alt href) = ''!['' @ alt @ '']('' @ href @ '')''"
| "source (Tag n) = ''<'' @ n @ ''>''"

fun is_fenced :: "piece \<Rightarrow> bool" where
  "is_fenced (Fenced b) = True"
| "is_fenced p = False"

fun is_img :: "piece \<Rightarrow> bool" where
  "is_img (Img alt href) = True"
| "is_img p = False"

fun is_tag :: "piece \<Rightarrow> bool" where
  "is_tag (Tag n) = True"
| "is_tag p = False"

fun kept :: "piece \<Rightarrow> string" where
  "kept (Plain t) = t"
| "kept (Fenced b) = []"
| "kept (Img alt href) = []"
| "kept (Tag n) = []"

fun well_formed_piece :: "piece \<Rightarrow> bool" where
  "well_formed_piece (Plain t) = (set t \<inter> {CHR 0x60, CHR ''!'', CHR ''<''} = {})"
| "well_formed_piece (Fenced b) = (CHR 0x60 \<notin> set b)"
| "well_formed_piece (Img alt href) =
     (set alt \<inter> {CHR 0x60, CHR 0x0A, CHR 0x0D, CHR '']''} = {} \<and>
      set href \<inter> {CHR 0x60, CHR 0x0A, CHR 0x0D, CHR '')''} = {})"
| "well_formed_piece (Tag n) = (set n \<inter> {CHR 0x60, CHR ''!'', CHR ''>''} = {})"

subsection \<open>A leading frontmatter\<close>


subsection \<open>Notions for the build as a whole\<close>

text \<open>The records that a build wrote to \<^verbatim>\<open>search-index.json\<close>.\<close>

definition search_index_of :: "build_result \<Rightarrow> search_record list" where
  "search_index_of r =
     concat (map (\<lambda>op. case op of WriteJson p records \<Rightarrow> records | _ \<Rightarrow> []) (fs_ops r))"

text \<open>Every Markdown file from whose frontmatter the constructor can read gives
  a date in it.\<close>

definition every_date_given :: "env \<Rightarrow> site \<Rightarrow> bool" where
  "every_date_given e fs =
     list_all (\<lambda>f.
       case readFile fs f of
         None \<Rightarrow> True
       | Some doc \<Rightarrow>
           (case frontmatterRegex doc of
              None \<Rightarrow> True
            | Some (fmText, body) \<Rightarrow>
                (case yaml_load e fmText of
                   Inl err \<Rightarrow> True
                 | Inr v \<Rightarrow>
                     (case properties v of
                        None \<Rightarrow> True
                      | Some fm \<Rightarrow> date_given (fm_date fm)))))
       (markdownFiles fs)"

text \<open>The start of the calendar day of a time value, in local time: what
  \<^verbatim>\<open>setHours(0, 0, 0, 0)\<close> leaves.\<close>

definition day_start :: "(int \<Rightarrow> bool \<Rightarrow> int) \<Rightarrow> int \<Rightarrow> int" where
  "day_start tza t = UTC tza (LocalTime tza t div msPerDay * msPerDay)"

subsection \<open>A sample environment and sample documents\<close>

text \<open>
  The examples below run the script in this environment.  It gives the results
  of the libraries on the inputs that the examples use: js-yaml on the
  frontmatter blocks of the sample documents (an unquoted timestamp becomes a
  \<^verbatim>\<open>Date\<close>, an unclosed flow sequence is rejected), marked on the bodies of
  the sample documents, highlight.js on one line of Go.  The host is in the
  time zone UTC, and every object inherits the properties of
  \<^verbatim>\<open>Object.prototype\<close>, which are functions and convert to their source text.
\<close>

definition sample_yaml :: "string \<Rightarrow> error + yaml_value" where
  "sample_yaml doc =
     (if doc = ''title: Hello'' then
        Inr (YMapping \<lparr>fm_title = Some ''Hello'', fm_date = None, fm_description = None, fm_tags = None\<rparr>)
      else if doc = ''title: Hello\<newline>date: 2025-01-15'' then
        Inr (YMapping \<lparr>fm_title = Some ''Hello'', fm_date = Some (DateObject 1736899200000),
          fm_description = None, fm_tags = None\<rparr>)
      else if doc = ''title: Later\<newline>date: 2025-02-01'' then
        Inr (YMapping \<lparr>fm_title = Some ''Later'', fm_date = Some (DateObject 1738368000000),
          fm_description = None, fm_tags = None\<rparr>)
      else if doc = ''title: Future\<newline>date: 2999-01-01'' then
        Inr (YMapping \<lparr>fm_title = Some ''Future'', fm_date = Some (DateObject 32472144000000),
          fm_description = None, fm_tags = None\<rparr>)
      else if doc = ''just a line'' then Inr YOther
      else if doc = [] then Inr YNull
      else Inl YAMLException)"

definition native_function :: "string \<Rightarrow> string" where
  "native_function name = ''function '' @ name @ ''() {\<newline>    [native code]\<newline>}''"

definition sample_prototype :: "string \<Rightarrow> string option" where
  "sample_prototype = map_of [
     (''constructor'', native_function ''Object''),
     (''toString'', native_function ''toString''),
     (''toLocaleString'', native_function ''toLocaleString''),
     (''valueOf'', native_function ''valueOf''),
     (''hasOwnProperty'', native_function ''hasOwnProperty''),
     (''isPrototypeOf'', native_function ''isPrototypeOf''),
     (''propertyIsEnumerable'', native_function ''propertyIsEnumerable''),
     (''__defineGetter__'', native_function ''__defineGetter__''),
     (''__defineSetter__'', native_function ''__defineSetter__''),
     (''__lookupGetter__'', native_function ''__lookupGetter__''),
     (''__lookupSetter__'', native_function ''__lookupSetter__''),
     (''__proto__'', ''[object Object]'')]"

definition sample_env :: env where
  \<open>sample_env = \<lparr>
     SUPPORTED_LANGUAGES = [''go'', ''javascript''],
     hljs_getLanguage = (\<lambda>l. l \<in> set [''go'', ''javascript'']),
     hljs_highlight = (\<lambda>code l.
       if code = ''package main'' \<and> l = ''go''
       then Some ''<span class="hljs-keyword">package</span> main'' else None),
     marked_lexer = (\<lambda>src.
       if src = ''# Hi\<newline>\<newline>Some text.''
       then [Html ''<h1>Hi</h1>\<newline><p>Some text.</p>\<newline>'']
       else if src = ''![alt](./pic.png)''
       then [Html ''<p>'', Image \<lparr>img_href = ''./pic.png'', img_title = None, img_text = ''alt''\<rparr>,
             Html ''</p>\<newline>'']
       else if src = ''![logo](//cdn.example.com/logo.png)''
       then [Html ''<p>'',
             Image \<lparr>img_href = ''//cdn.example.com/logo.png'', img_title = None, img_text = ''logo''\<rparr>,
             Html ''</p>\<newline>'']
       else if src = replicate 3 (CHR 0x60) @ ''javascript\<newline>a < b\<newline>'' @ replicate 3 (CHR 0x60)
       then [Code \<lparr>tok_lang = Some ''javascript'', tok_text = ''a < b''\<rparr>]
       else if src \<in> set [''Some text.'', ''Later text.'', ''Not yet.'']
       then [Html (''<p>'' @ src @ ''</p>\<newline>'')]
       else []),
     marked_image = (\<lambda>href ttl alt.
       case href of
         AToken i \<Rightarrow> Inr (''<img src="'' @ img_href i @ ''" alt="'' @ img_text i @ ''">'')
       | _ \<Rightarrow> Inr ''<img src="undefined" alt="undefined">''),
     yaml_load = sample_yaml,
     Date_parse = (\<lambda>s. None),
     LocalTZA = (\<lambda>t isUTC. 0),
     Object_prototype = sample_prototype\<rparr>\<close>

definition init_state :: renderer_state where
  "init_state = \<lparr>currentArticleLanguages = [], currentArticleForRenderer = None\<rparr>"

text \<open>The document of the scenario of section 8 of the specification, and the
  article that it parses to.\<close>

definition hello_doc :: string where
  "hello_doc = ''---\<newline>title: Hello\<newline>date: 2025-01-15\<newline>---\<newline># Hi\<newline>\<newline>Some text.''"

definition hello_article :: article where
  "hello_article = \<lparr>
     content = ''# Hi\<newline>\<newline>Some text.'',
     title = ''Hello'',
     date = Some 1736899200000,
     description = [],
     tags = [],
     filePath = ''articles/2025/hello.md'',
     languages = [],
     images = [],
     isProject = False,
     projectName = JNull,
     url = ''/articles/2025/hello'',
     readTime = 1\<rparr>"

text \<open>A document with a frontmatter and an empty body.\<close>

definition empty_doc :: string where
  "empty_doc = ''---\<newline>title: Hello\<newline>---\<newline>''"

text \<open>Three code blocks: a line of Go, a block without a language tag, and a
  line of JavaScript, on which the highlighter of the sample environment
  throws.\<close>

definition go_block :: code_token where
  "go_block = \<lparr>tok_lang = Some ''go'', tok_text = ''package main''\<rparr>"

definition untagged_block :: code_token where
  "untagged_block = \<lparr>tok_lang = None, tok_text = ''<b>''\<rparr>"

definition failing_block :: code_token where
  "failing_block = \<lparr>tok_lang = Some ''javascript'', tok_text = ''a < b''\<rparr>"

text \<open>A layout and the data of one page.\<close>

definition sample_layout_text :: string where
  "sample_layout_text = ''<title>{{title}}</title><main>{{content}}</main>{{footer}}''"

definition sample_layout :: "segment list" where
  "sample_layout =
     [Text ''<title>'', Token ''title'', Text ''</title><main>'', Token ''content'',
      Text ''</main>'', Token ''footer'']"

definition sample_data :: "string \<Rightarrow> string option" where
  "sample_data = map_of [(''title'', ''Hello''), (''content'', ''<p>Hi</p>'')]"

text \<open>An article whose body uses Markdown syntax, and its record in the search
  index.\<close>

definition markdown_article :: article where
  "markdown_article = hello_article\<lparr>
     content := ''## Title\<newline>\<newline>**bold** and [link](http://x.y)'',
     filePath := ''articles/2025/markdown.md'',
     url := ''/articles/2025/markdown''\<rparr>"

definition hello_record :: search_record where
  "hello_record = \<lparr>
     si_title = ''Hello'',
     si_description = [],
     si_url = ''/articles/2025/hello'',
     si_date = ''2025-01-15T00:00:00.000Z'',
     si_readTime = 1,
     si_projectName = JNull,
     si_content = ''# Hi Some text.'',
     si_languages = [],
     si_tags = []\<rparr>"

text \<open>A body as pieces: a heading, a fenced block, an image and a line break tag.\<close>

definition sample_pieces :: "piece list" where
  "sample_pieces =
     [Plain ''# Hi\<newline>'', Fenced ''go\<newline>package main\<newline>'', Plain ''\<newline>see '',
      Img ''alt'' ''./pic.png'', Tag ''br'', Plain '' **now**'']"

text \<open>The round trip of the specification: an article at
  \<^verbatim>\<open>/articles/2025/foo\<close> whose body is one image.\<close>

definition foo_doc :: string where
  "foo_doc = ''---\<newline>title: Hello\<newline>date: 2025-01-15\<newline>---\<newline>![alt](./pic.png)''"

definition foo_article :: article where
  "foo_article = \<lparr>
     content = ''![alt](./pic.png)'',
     title = ''Hello'',
     date = Some 1736899200000,
     description = [],
     tags = [],
     filePath = ''articles/2025/foo.md'',
     languages = [],
     images = [''./pic.png''],
     isProject = False,
     projectName = JNull,
     url = ''/articles/2025/foo'',
     readTime = 1\<rparr>"

definition rendering_foo :: renderer_state where
  "rendering_foo = \<lparr>currentArticleLanguages = [], currentArticleForRenderer = Some foo_article\<rparr>"

text \<open>An article whose body is one image with a protocol-relative target.\<close>

definition cdn_doc :: string where
  "cdn_doc = ''---\<newline>title: Hello\<newline>date: 2025-01-15\<newline>---\<newline>![logo](//cdn.example.com/logo.png)''"

definition cdn_article :: article where
  "cdn_article = foo_article\<lparr>
     content := ''![logo](//cdn.example.com/logo.png)'',
     filePath := ''articles/2025/cdn.md'',
     images := [''//cdn.example.com/logo.png''],
     url := ''/articles/2025/cdn''\<rparr>"

text \<open>The five templates of the sample site.\<close>

definition sample_templates :: templates where
  "sample_templates = \<lparr>
     tpl_layout = ''<title>{{title}}</title><style>{{styles}}</style>{{content}}'',
     tpl_index = ''<main>{{articles}}</main>'',
     tpl_article = ''<h1>{{title}}</h1>{{content}}'',
     tpl_projects = ''<main>{{projects}}</main>'',
     tpl_404 = ''Not found''\<rparr>"

text \<open>A site: a stylesheet, the five templates and the given Markdown files.\<close>

definition site_of :: "(string \<times> string) list \<Rightarrow> site" where
  "site_of files = \<lparr>
     readFile = map_of ([
       (''./src/styles.css'', ''body{}''),
       (''templates/layout.html'', tpl_layout sample_templates),
       (''templates/index.html'', tpl_index sample_templates),
       (''templates/article.html'', tpl_article sample_templates),
       (''templates/projects.html'', tpl_projects sample_templates),
       (''templates/404.html'', tpl_404 sample_templates)] @ files),
     markdownFiles = map fst files\<rparr>"



text \<open>A second article, dated after the first, and a site that holds the two
  files in the order of their names.\<close>

definition later_doc :: string where
  "later_doc = ''---\<newline>title: Later\<newline>date: 2025-02-01\<newline>---\<newline>Later text.''"

definition later_article :: article where
  "later_article = hello_article\<lparr>
     content := ''Later text.'',
     title := ''Later'',
     date := Some 1738368000000,
     filePath := ''articles/2025/later.md'',
     url := ''/articles/2025/later''\<rparr>"

definition two_site :: site where
  "two_site = site_of [(''articles/2025/hello.md'', hello_doc), (''articles/2025/later.md'', later_doc)]"

text \<open>A project article dated 1 January 2999, and a build on 15 January 2025.\<close>

definition future_doc :: string where
  "future_doc = ''---\<newline>title: Future\<newline>date: 2999-01-01\<newline>---\<newline>Not yet.''"

definition future_article :: article where
  "future_article = \<lparr>
     content = ''Not yet.'',
     title = ''Future'',
     date = Some 32472144000000,
     description = [],
     tags = [],
     filePath = ''articles/projects/demo/future.md'',
     languages = [],
     images = [],
     isProject = True,
     projectName = JString ''demo'',
     url = ''/articles/projects/demo/future'',
     readTime = 1\<rparr>"

definition future_site :: site where
  "future_site = site_of [(''articles/projects/demo/future.md'', future_doc)]"

definition build_time :: int where
  "build_time = 1736899200000"

text \<open>A site whose one article gives no date.\<close>

definition undated_doc :: string where
  "undated_doc = ''---\<newline>title: Hello\<newline>---\<newline>Some text.''"

definition undated_site :: site where
  "undated_site = site_of [(''articles/2025/undated.md'', undated_doc)]"


text \<open>An article whose date, at the start of its calendar day, is after the
  start of the day of the build.\<close>

definition is_future :: "(int \<Rightarrow> bool \<Rightarrow> int) \<Rightarrow> int \<Rightarrow> article \<Rightarrow> bool" where
  "is_future tza now a =
     (case date a of None \<Rightarrow> False | Some t \<Rightarrow> day_start tza now < day_start tza t)"

text \<open>A text occurs in another.\<close>

fun occurs_in :: "string \<Rightarrow> string \<Rightarrow> bool" where
  "occurs_in s [] = (s = [])"
| "occurs_in s (c # t) = (startsWith (c # t) s \<or> occurs_in s t)"

text \<open>The line of a card of the index page that links to the article, and the
  line of an item of the projects page that does.\<close>

definition card_heading :: "article \<Rightarrow> string" where
  \<open>card_heading a = ''        <h2><a href="'' @ url a @ ''">'' @ title a @ ''</a></h2>\<newline>''\<close>

definition project_link :: "article \<Rightarrow> string" where
  \<open>project_link a = ''          <a href="'' @ url a @ ''">'' @ title a @ ''</a>\<newline>''\<close>

text \<open>The article of the undated document when the clock reads \<open>now\<close>.\<close>

definition undated_article :: "int \<Rightarrow> article" where
  "undated_article now = hello_article\<lparr>
     content := ''Some text.'',
     date := Some now,
     filePath := ''articles/2025/undated.md'',
     url := ''/articles/2025/undated''\<rparr>"


subsection \<open>A site in order\<close>

text \<open>
  A Markdown file is in order when it can be read, has a leading frontmatter
  for which js-yaml returns a value other than \<^verbatim>\<open>null\<close> or \<^verbatim>\<open>undefined\<close>,
  marked finds no image in its body, and its date is valid.  A site is in
  order when its stylesheet and its five templates can be read and each of its
  Markdown files is in order.
\<close>

definition file_in_order :: "env \<Rightarrow> (string \<Rightarrow> int) \<Rightarrow> site \<Rightarrow> string \<Rightarrow> bool" where
  "file_in_order e clock fs f =
     (case readFile fs f of
        None \<Rightarrow> False
      | Some doc \<Rightarrow>
          (case frontmatterRegex doc of
             None \<Rightarrow> False
           | Some (fmText, body) \<Rightarrow>
               (case yaml_load e fmText of
                  Inl err \<Rightarrow> False
                | Inr v \<Rightarrow>
                    (case properties v of
                       None \<Rightarrow> False
                     | Some fm \<Rightarrow>
                         list_all (\<lambda>t. \<not> is_image t) (marked_lexer e body) \<and>
                         article_date e (clock f) (fm_date fm) \<noteq> None))))"

definition site_in_order :: "env \<Rightarrow> (string \<Rightarrow> int) \<Rightarrow> site \<Rightarrow> bool" where
  "site_in_order e clock fs \<longleftrightarrow>
     readFile fs STYLES_PATH \<noteq> None \<and> loadTemplates fs \<noteq> None \<and>
     list_all (file_in_order e clock fs) (markdownFiles fs)"

text \<open>A document whose body is the code block on which the highlighter
  throws, and its site.\<close>

definition code_doc :: string where
  "code_doc = ''---\<newline>title: Hello\<newline>date: 2025-01-15\<newline>---\<newline>'' @
     replicate 3 (CHR 0x60) @ ''javascript\<newline>a < b\<newline>'' @ replicate 3 (CHR 0x60)"

definition code_site :: site where
  "code_site = site_of [(''articles/2025/code.md'', code_doc)]"

text \<open>The sites of the two articles whose body is one image.\<close>

definition foo_site :: site where
  "foo_site = site_of [(''articles/2025/foo.md'', foo_doc)]"

definition cdn_site :: site where
  "cdn_site = site_of [(''articles/2025/cdn.md'', cdn_doc)]"

section \<open>Properties\<close>

subsection \<open>Regular expressions\<close>

lemma star_greedy_rest: "star_greedy p (\<lambda>_ rest. Some rest) acc s = Some (dropWhile p s)"
  by (induction s arbitrary: acc) auto

lemma re_spaces_Cons:
  "re_spaces (c # cs) = (if is_space c then Some (dropWhile is_space cs) else None)"
  by (simp add: re_spaces_def plus_greedy_def star_greedy_rest)

subsection \<open>Read time\<close>

lemma tokens_acc_dropWhile: "tokens_acc [] (dropWhile is_space s) = tokens_acc [] s"
  by (induction s) auto

lemma js_split_tokens:
  "filter (\<lambda>w. w \<noteq> []) (js_split re_spaces cur s) = tokens_acc cur s"
proof (induction "re_spaces" cur s rule: js_split.induct)
  case (1 cur)
  then show ?case by simp
next
  case (2 cur c cs)
  show ?case
  proof (cases "is_space c")
    case True
    have "length (dropWhile is_space cs) \<le> length cs" by (rule length_dropWhile_le)
    with True 2(2)[of "dropWhile is_space cs"] show ?thesis
      by (simp add: re_spaces_Cons tokens_acc_dropWhile)
  next
    case False
    with 2(1) show ?thesis by (simp add: re_spaces_Cons)
  qed
qed

lemma wordCount_tokens: "wordCount body = length (ws_tokens body)"
  unfolding wordCount_def ws_tokens_def
  by (metis js_split_tokens)

lemma tokens_acc_nonempty:
  "tokens_acc cur s \<noteq> [] \<longleftrightarrow> cur \<noteq> [] \<or> (\<exists>c \<in> set s. \<not> is_space c)"
  by (induction s arbitrary: cur) auto

lemma neg_div_200: "- ((- int n) div 200) = (int n + 199) div 200"
  by linarith

lemma ceil_div_200: "nat \<lceil>real n / 200\<rceil> = (n + 199) div 200"
proof -
  have "\<lceil>real n / 200\<rceil> = \<lceil>(of_int (int n) :: real) / of_int 200\<rceil>" by simp
  also have "\<dots> = - ((- int n) div 200)"
    unfolding ceiling_divide_eq_div by simp
  finally have "\<lceil>real n / 200\<rceil> = (int n + 199) div 200" using neg_div_200 by simp
  then have "nat \<lceil>real n / 200\<rceil> = nat ((int n + 199) div 200)" by simp
  also have "\<dots> = (n + 199) div 200" by linarith
  finally show ?thesis .
qed

lemma readTime_pos_iff: "1 \<le> nat \<lceil>real n / 200\<rceil> \<longleftrightarrow> 1 \<le> n"
  unfolding ceil_div_200 by linarith

lemma parseMarkdownFile_Inr:
  assumes "parseMarkdownFile e now st path file = Inr (a, st')"
  shows "\<exists>text fmText body fm a0.
           file = Some text \<and> frontmatterRegex text = Some (fmText, body) \<and>
           yaml_load e fmText = Inr fm \<and> new_Article e now body fm path = Inr a0 \<and>
           a = a0\<lparr>images := images a0 @ exec_all imageRegex body, languages := languages a\<rparr>"
  using assms unfolding parseMarkdownFile_def
  by (auto simp: Let_def split: option.splits sum.splits prod.splits)

lemma new_Article_readTime:
  assumes "new_Article e now body fm path = Inr a0"
  shows "readTime a0 = nat \<lceil>real (wordCount body) / 200\<rceil> \<and> content a0 = body"
  using assms unfolding new_Article_def
  by (auto simp: Let_def split: option.splits)

lemma hello_doc_parses:
  "parseMarkdownFile sample_env 0 init_state ''articles/2025/hello.md'' (Some hello_doc)
     = Inr (hello_article, init_state)"
  by code_simp

text \<open>
  C3, as the code has it.  The read time of every article that
  \<^verbatim>\<open>parseMarkdownFile\<close> returns is the number of whitespace-delimited tokens
  of its body divided by 200 and rounded up.  It is at least 1 exactly when the
  body has a character that is not whitespace: the constructor applies
  \<^verbatim>\<open>Math.ceil\<close> and nothing else, so an empty or blank body has read time 0.
\<close>

theorem readTime_ceil_word_count:
  assumes "parseMarkdownFile e now st path file = Inr (a, st')"
  shows "readTime a = nat \<lceil>real (length (ws_tokens (content a))) / 200\<rceil> \<and>
         (1 \<le> readTime a \<longleftrightarrow> (\<exists>c \<in> set (content a). \<not> is_space c))"
proof -
  from parseMarkdownFile_Inr[OF assms] obtain body fm a0 where
    a0: "new_Article e now body fm path = Inr a0" and
    a: "a = a0\<lparr>images := images a0 @ exec_all imageRegex body, languages := languages a\<rparr>"
    by blast
  from new_Article_readTime[OF a0] have rt: "readTime a0 = nat \<lceil>real (wordCount body) / 200\<rceil>"
    and c: "content a0 = body" by simp_all
  have ra: "readTime a = readTime a0" and ca: "content a = body"
    using c by (subst a, simp)+
  have "tokens_acc [] body \<noteq> [] \<longleftrightarrow> (\<exists>c \<in> set body. \<not> is_space c)"
    using tokens_acc_nonempty[of "[]" body] by simp
  then have "1 \<le> length (ws_tokens body) \<longleftrightarrow> (\<exists>c \<in> set body. \<not> is_space c)"
    unfolding ws_tokens_def by (cases "tokens_acc [] body") auto
  then show ?thesis
    using rt ra ca readTime_pos_iff[of "length (ws_tokens body)"]
    by (simp add: wordCount_tokens)
qed

text \<open>The scenario of the specification: four tokens, read time 1.\<close>

theorem readTime_ceil_word_count_witness:
  "parseMarkdownFile sample_env 0 init_state ''articles/2025/hello.md'' (Some hello_doc)
     = Inr (hello_article, init_state) \<and>
   length (ws_tokens (content hello_article)) = 4 \<and>
   readTime hello_article = nat \<lceil>real (length (ws_tokens (content hello_article))) / 200\<rceil> \<and>
   (1 \<le> readTime hello_article) = (\<exists>c \<in> set (content hello_article). \<not> is_space c)"
proof -
  have t: "length (ws_tokens (content hello_article)) = 4" by code_simp
  note th = readTime_ceil_word_count[OF hello_doc_parses]
  show ?thesis
    by (intro conjI) (rule hello_doc_parses t conjunct1[OF th] conjunct2[OF th])+
qed

text \<open>C3 as stated fails: a document with an empty body parses to an article
  with read time 0.\<close>

theorem readTime_empty_body_counterexample:
  "map_sum id (\<lambda>r. (content (fst r), readTime (fst r)))
     (parseMarkdownFile sample_env 0 init_state ''articles/2025/hello.md'' (Some empty_doc))
   = Inr ([], 0)"
  by code_simp

subsection \<open>Code blocks\<close>

lemma replace_char_Cons:
  "replace_char c r (x # s) = (if x = c then r else [x]) @ replace_char c r s"
  by (simp add: replace_char_def)

lemma replace_char_Nil: "replace_char c r [] = []"
  by (simp add: replace_char_def)

lemma replace_char_append:
  "replace_char c r (a @ b) = replace_char c r a @ replace_char c r b"
  by (simp add: replace_char_def)

lemma escapeHtml_Nil: "escapeHtml (Str []) = []"
  by (simp add: escapeHtml_def replace_char_Nil)

lemma escapeHtml_Cons: "escapeHtml (Str (x # s)) = html_entity x @ escapeHtml (Str s)"
  by (simp add: escapeHtml_def html_entity_def replace_char_Cons replace_char_append replace_char_Nil)

lemma escapeHtml_entities: "escapeHtml (Str s) = concat (map html_entity s)"
  by (induction s) (simp_all add: escapeHtml_Nil escapeHtml_Cons)

lemma escapeHtml_Tok: "escapeHtml (Tok code) = escapeHtml (Str (tok_text code))"
  by (simp add: escapeHtml_def)

lemma html_entity_inert:
  \<open>c \<in> set (html_entity x) \<Longrightarrow> c \<noteq> CHR ''<'' \<and> c \<noteq> CHR ''>'' \<and> c \<noteq> CHR ''"'' \<and> c \<noteq> CHR 0x27\<close>
  by (auto simp: html_entity_def split: if_splits)

lemma escapeHtml_inert:
  \<open>c \<in> set (escapeHtml (Str s)) \<Longrightarrow> c \<noteq> CHR ''<'' \<and> c \<noteq> CHR ''>'' \<and> c \<noteq> CHR ''"'' \<and> c \<noteq> CHR 0x27\<close>
  unfolding escapeHtml_entities using html_entity_inert by auto

lemma highlighted_block_code_block:
  "highlighted_block l v esc = code_block 8 l (''hljs language-'' @ l) v esc"
  by (simp add: highlighted_block_def code_block_def wrapper_open_def pre_code_def copy_button_def
        nl_def numeral_eq_Suc)

lemma plain_block_code_block:
  "plain_block dl cl body esc = code_block 2 dl (''language-'' @ cl) body esc"
  by (simp add: plain_block_def code_block_def wrapper_open_def pre_code_def copy_button_def
        nl_def numeral_eq_Suc)

lemma renderer_code_highlighted:
  assumes "tok_lang code = Some l" "l \<noteq> []" "l \<in> set (SUPPORTED_LANGUAGES e)"
    "hljs_getLanguage e l" "hljs_highlight e (tok_text code) l = Some v"
  shows "fst (renderer_code e st code) =
           code_block 8 l (''hljs language-'' @ l) v (concat (map html_entity (tok_text code)))"
  using assms
  by (simp add: renderer_code_def Let_def escapeHtml_Tok escapeHtml_entities highlighted_block_code_block)

lemma renderer_code_plain:
  assumes "tok_lang code = None \<or> tok_lang code = Some [] \<or>
           (\<exists>l. tok_lang code = Some l \<and>
              (l \<notin> set (SUPPORTED_LANGUAGES e) \<or> \<not> hljs_getLanguage e l \<or> hljs_highlight e (tok_text code) l = None))"
  shows "fst (renderer_code e st code) =
           code_block 2 (case tok_lang code of None \<Rightarrow> ''text'' | Some l \<Rightarrow> if l = [] then ''text'' else l)
             (''language-'' @ (case tok_lang code of None \<Rightarrow> [] | Some l \<Rightarrow> l))
             (concat (map html_entity (tok_text code))) (concat (map html_entity (tok_text code)))"
  using assms
  by (auto simp: renderer_code_def Let_def escapeHtml_Tok escapeHtml_entities plain_block_code_block
           split: option.splits)

text \<open>What ends \<^verbatim>\<open>marked.parse\<close>: while an article is the current one, an image,
  and nothing else.\<close>

lemma renderer_code_current:
  "currentArticleForRenderer (snd (renderer_code e st code)) = currentArticleForRenderer st"
  by (simp add: renderer_code_def Let_def split: option.splits)

lemma object_string_not_absolute: "re_absolute_url ''[object Object]'' = None"
  by code_simp

lemma renderer_image_token:
  assumes "currentArticleForRenderer st = Some a"
  shows "renderer_image e st (AToken i) ttl alt = Inl TypeError"
  using assms by (simp add: renderer_image_def String_arg_def object_string_not_absolute)

lemma render_tokens_no_image:
  assumes "list_all (\<lambda>t. \<not> is_image t) ts"
  shows "\<exists>out st'. render_tokens e st ts = Inr (out, st') \<and>
           currentArticleForRenderer st' = currentArticleForRenderer st"
  using assms
proof (induction ts arbitrary: st)
  case Nil
  then show ?case by simp
next
  case (Cons t ts)
  show ?case
  proof (cases t)
    case (Html h)
    from Cons obtain out st' where "render_tokens e st ts = Inr (out, st')"
      "currentArticleForRenderer st' = currentArticleForRenderer st" by fastforce
    with Html show ?thesis by simp
  next
    case (Code c)
    obtain h st1 where r: "renderer_code e st c = (h, st1)" by (cases "renderer_code e st c")
    then have c1: "currentArticleForRenderer st1 = currentArticleForRenderer st"
      using renderer_code_current[of e st c] by simp
    from Cons obtain out st' where "render_tokens e st1 ts = Inr (out, st')"
      "currentArticleForRenderer st' = currentArticleForRenderer st1" by fastforce
    with Code r c1 show ?thesis by simp
  next
    case (Image i)
    with Cons.prems show ?thesis by simp
  qed
qed

lemma render_tokens_image:
  assumes "currentArticleForRenderer st = Some a" "\<not> list_all (\<lambda>t. \<not> is_image t) ts"
  shows "render_tokens e st ts = Inl TypeError"
  using assms
proof (induction ts arbitrary: st)
  case Nil
  then show ?case by simp
next
  case (Cons t ts)
  show ?case
  proof (cases t)
    case (Html h)
    with Cons have "render_tokens e st ts = Inl TypeError" by simp
    with Html show ?thesis by simp
  next
    case (Code c)
    obtain h st1 where r: "renderer_code e st c = (h, st1)" by (cases "renderer_code e st c")
    then have "currentArticleForRenderer st1 = Some a"
      using renderer_code_current[of e st c] Cons.prems(1) by simp
    with Cons Code have "render_tokens e st1 ts = Inl TypeError" by simp
    with Code r show ?thesis by simp
  next
    case (Image i)
    with renderer_image_token[OF Cons.prems(1)] show ?thesis by simp
  qed
qed


subsection \<open>Templates\<close>

lemma star_greedy_det:
  assumes "\<And>a c cs. p c \<Longrightarrow> k a (c # cs) = None"
  shows "star_greedy p k acc s = k (acc @ takeWhile p s) (dropWhile p s)"
  using assms
proof (induction s arbitrary: acc)
  case Nil
  then show ?case by simp
next
  case (Cons c cs)
  show ?case
  proof (cases "p c")
    case True
    have "star_greedy p k (acc @ [c]) cs = k ((acc @ [c]) @ takeWhile p cs) (dropWhile p cs)"
      by (rule Cons.IH) (rule Cons.prems)
    with True Cons.prems[of c acc cs] show ?thesis
      by (cases "k (acc @ c # takeWhile p cs) (dropWhile p cs)") simp_all
  next
    case False
    then show ?thesis by simp
  qed
qed

lemma close_fails_on_word:
  "is_word c \<Longrightarrow> lit ''}}'' (\<lambda>rest. Some (a, rest)) (c # cs) = None"
  by (auto simp: lit_def is_word_def Let_def)

lemma re_placeholder_token:
  assumes "key \<noteq> []" "list_all is_word key"
  shows "re_placeholder (''{{'' @ key @ ''}}'' @ s) = Some (key, s)"
proof -
  obtain c cs where k: "key = c # cs" using assms(1) by (cases key) auto
  have w: "is_word c" "list_all is_word cs" using assms(2) k by auto
  have nw: "\<not> is_word (CHR ''}'')" by (simp add: is_word_def Let_def)
  have tw: "takeWhile is_word (cs @ CHR ''}'' # CHR ''}'' # s) = cs"
    using w(2) nw by (induction cs) auto
  have dw: "dropWhile is_word (cs @ CHR ''}'' # CHR ''}'' # s) = CHR ''}'' # CHR ''}'' # s"
    using w(2) nw by (induction cs) auto
  have "star_greedy is_word (\<lambda>key. lit ''}}'' (\<lambda>rest. Some (key, rest))) [c] (cs @ ''}}'' @ s)
        = lit ''}}'' (\<lambda>rest. Some ([c] @ cs, rest)) (''}}'' @ s)"
    by (subst star_greedy_det) (simp_all add: close_fails_on_word tw dw)
  then show ?thesis
    using w(1) by (simp add: re_placeholder_def lit_def plus_greedy_def k)
qed

lemma re_placeholder_no_open:
  "\<not> (c = CHR ''{'' \<and> d = CHR ''{'') \<Longrightarrow> re_placeholder (c # d # s) = None"
  by (auto simp: re_placeholder_def lit_def)

lemma re_placeholder_single:
  "c \<noteq> CHR ''{'' \<Longrightarrow> re_placeholder (c # s) = None"
  by (auto simp: re_placeholder_def lit_def)

lemma renderTemplate_text:
  "plain_text t \<Longrightarrow> renderTemplate e (t @ s) data = t @ renderTemplate e s data"
proof (induction t rule: plain_text.induct)
  case 1
  then show ?case by simp
next
  case (2 c)
  then show ?case by (simp add: renderTemplate_def re_placeholder_single)
next
  case (3 c d r)
  then show ?case by (simp add: renderTemplate_def re_placeholder_no_open)
qed

lemma renderTemplate_token:
  assumes "key \<noteq> []" "list_all is_word key"
  shows "renderTemplate e (''{{'' @ key @ ''}}'' @ s) data
         = data_get (Object_prototype e) data key @ renderTemplate e s data"
proof -
  have "re_placeholder (CHR ''{'' # CHR ''{'' # key @ ''}}'' @ s) = Some (key, s)"
    using re_placeholder_token[OF assms, of s] by simp
  then show ?thesis
    by (simp add: renderTemplate_def)
qed

lemma renderTemplate_Nil: "renderTemplate e [] data = []"
  by (simp add: renderTemplate_def)

lemma renderTemplate_segments:
  assumes "list_all well_formed segs"
  shows "renderTemplate e (concat (map template_text segs)) data = concat (map (filled e data) segs)"
  using assms
proof (induction segs)
  case Nil
  then show ?case by (simp add: renderTemplate_Nil)
next
  case (Cons seg segs)
  then have ih: "renderTemplate e (concat (map template_text segs)) data = concat (map (filled e data) segs)"
    by simp
  show ?case
  proof (cases seg)
    case (Text t)
    with Cons.prems have "plain_text t" by simp
    then show ?thesis
      using ih Text by (simp add: renderTemplate_text)
  next
    case (Token key)
    with Cons.prems have "key \<noteq> []" "list_all is_word key" by simp_all
    from renderTemplate_token[OF this, of e "concat (map template_text segs)" data] show ?thesis
      using ih Token by simp
  qed
qed

lemma plain_text_append: "plain_text a \<Longrightarrow> plain_text b \<Longrightarrow> plain_text (a @ b)"
proof (induction a rule: plain_text.induct)
  case 1
  then show ?case by simp
next
  case (2 c)
  then show ?case by (cases b) auto
next
  case (3 c d r)
  then show ?case by simp
qed

lemma plain_text_no_brace: "CHR ''{'' \<notin> set t \<Longrightarrow> plain_text t"
  by (induction t rule: plain_text.induct) auto

lemma plain_text_no_placeholder:
  "plain_text t \<Longrightarrow> re_placeholder (drop i t) = None"
proof (induction t arbitrary: i rule: plain_text.induct)
  case 1
  then show ?case by (simp add: re_placeholder_def lit_def)
next
  case (2 c)
  then show ?case by (cases i) (simp_all add: re_placeholder_single re_placeholder_def lit_def)
next
  case (3 c d r)
  then show ?case by (cases i) (simp_all add: re_placeholder_no_open)
qed

lemma plain_text_filled:
  assumes "list_all well_formed segs"
    and "\<And>key. key \<in> set (keys_of segs) \<Longrightarrow> CHR ''{'' \<notin> set (data_get (Object_prototype e) data key)"
  shows "plain_text (concat (map (filled e data) segs))"
  using assms
proof (induction segs)
  case Nil
  then show ?case by simp
next
  case (Cons seg segs)
  then have ih: "plain_text (concat (map (filled e data) segs))" by (simp add: keys_of_def)
  have "plain_text (filled e data seg)"
  proof (cases seg)
    case (Text t)
    with Cons.prems show ?thesis by simp
  next
    case (Token key)
    then show ?thesis using Cons.prems(2)[of key] by (simp add: plain_text_no_brace keys_of_def)
  qed
  with ih show ?case by (simp add: plain_text_append)
qed

text \<open>The expression of the script and the direct scan find the same
  placeholders.\<close>

lemma re_placeholder_scan: "re_placeholder s = placeholder_at s"
proof (cases s)
  case Nil
  then show ?thesis by (simp add: re_placeholder_def lit_def placeholder_at_def)
next
  case s1: (Cons a s')
  show ?thesis
  proof (cases s')
    case Nil
    with s1 show ?thesis by (simp add: re_placeholder_def lit_def placeholder_at_def)
  next
    case s2: (Cons b r)
    show ?thesis
    proof (cases "a = CHR ''{'' \<and> b = CHR ''{''")
      case False
      with s1 s2 show ?thesis
        by (auto simp: re_placeholder_no_open placeholder_at_def Let_def)
    next
      case True
      show ?thesis
      proof (cases r)
        case Nil
        with s1 s2 True show ?thesis
          by (simp add: re_placeholder_def lit_def plus_greedy_def placeholder_at_def)
      next
        case (Cons c cs)
        show ?thesis
        proof (cases "is_word c")
          case False
          with s1 s2 True Cons show ?thesis
            by (simp add: re_placeholder_def lit_def plus_greedy_def placeholder_at_def)
        next
          case w: True
          have "star_greedy is_word (\<lambda>key. lit ''}}'' (\<lambda>rest. Some (key, rest))) [c] cs
                = lit ''}}'' (\<lambda>rest. Some ([c] @ takeWhile is_word cs, rest)) (dropWhile is_word cs)"
            by (subst star_greedy_det) (simp_all add: close_fails_on_word)
          with s1 s2 True Cons w show ?thesis
            by (simp add: re_placeholder_def lit_def plus_greedy_def placeholder_at_def Let_def
                  numeral_2_eq_2)
        qed
      qed
    qed
  qed
qed

lemma placeholder_at_text:
  assumes "placeholder_at s = Some (key, rest)"
  shows "s = ''{{'' @ key @ ''}}'' @ rest \<and> length rest < length s"
proof -
  from assms obtain r where s: "s = CHR ''{'' # CHR ''{'' # r" and k: "key = takeWhile is_word r"
    and t: "take 2 (dropWhile is_word r) = ''}}''" and d: "rest = drop 2 (dropWhile is_word r)"
    by (auto simp: placeholder_at_def Let_def split: list.splits if_splits)
  have "r = takeWhile is_word r @ dropWhile is_word r" by simp
  also have "dropWhile is_word r = take 2 (dropWhile is_word r) @ drop 2 (dropWhile is_word r)"
    by simp
  finally have "r = key @ ''}}'' @ rest" using k t d by simp
  with s show ?thesis by simp
qed

lemma segments_text: "concat (map template_text (segments t)) = t"
proof (induction t rule: segments.induct)
  case 1
  then show ?case by simp
next
  case (2 c cs)
  show ?case
  proof (cases "placeholder_at (c # cs)")
    case None
    with 2(1) show ?thesis by simp
  next
    case (Some p)
    obtain key rest where p: "p = (key, rest)" by (cases p)
    have ih: "concat (map template_text (segments rest)) = rest"
      by (rule 2(2)[OF Some p[symmetric]])
    have "segments (c # cs) = Token key # segments rest"
      using Some p by simp
    then have "concat (map template_text (segments (c # cs))) = ''{{'' @ key @ ''}}'' @ rest"
      using ih by simp
    also have "\<dots> = c # cs"
      using placeholder_at_text[of "c # cs" key rest] Some p by simp
    finally show ?thesis .
  qed
qed

lemma renderTemplate_scan:
  "renderTemplate e t data = concat (map (filled e data) (segments t))"
proof (induction t rule: segments.induct)
  case 1
  then show ?case by (simp add: renderTemplate_Nil)
next
  case (2 c cs)
  show ?case
  proof (cases "placeholder_at (c # cs)")
    case None
    with 2(1) show ?thesis
      by (simp add: renderTemplate_def re_placeholder_scan)
  next
    case (Some p)
    obtain key rest where p: "p = (key, rest)" by (cases p)
    have ih: "renderTemplate e rest data = concat (map (filled e data) (segments rest))"
      by (rule 2(2)[OF Some p[symmetric]])
    from placeholder_at_text[of "c # cs" key rest] Some p
    have l: "length rest \<le> length cs" by simp
    have s: "segments (c # cs) = Token key # segments rest"
      using Some p by simp
    have "renderTemplate e (c # cs) data = data_get (Object_prototype e) data key @ renderTemplate e rest data"
      using Some p l by (simp add: renderTemplate_def re_placeholder_scan)
    then show ?thesis unfolding s ih by simp
  qed
qed

lemma filled_fill:
  assumes "\<And>key. key \<in> set (keys_of segs) \<Longrightarrow> data key \<noteq> None \<or> Object_prototype e key = None"
  shows "map (filled e data) segs = map (fill data) segs"
  using assms
proof (induction segs)
  case Nil
  then show ?case by simp
next
  case (Cons seg segs)
  then have ih: "map (filled e data) segs = map (fill data) segs" by (simp add: keys_of_def)
  have "filled e data seg = fill data seg"
  proof (cases seg)
    case (Text t)
    then show ?thesis by simp
  next
    case (Token key)
    with Cons.prems[of key] have "data key \<noteq> None \<or> Object_prototype e key = None"
      by (simp add: keys_of_def)
    with Token show ?thesis
      by (auto simp: data_get_def value_of_def split: option.splits)
  qed
  with ih show ?case by simp
qed

text \<open>
  Claim C7.  \<^verbatim>\<open>renderTemplate\<close> makes one pass over the template.  Every
  template is the sequence of its placeholders and of the characters between
  them; when each key of a placeholder has a value in the data or is not the
  name of a property that every object inherits, the result is that sequence
  with each placeholder replaced by the value that the data provide for its
  key, the empty string when they provide none, and with the characters
  between the placeholders kept.  The values are put in as they are and are
  not scanned again: no placeholder stands anywhere in the result when the
  template is well formed and none of the values of its keys holds a
  \<^verbatim>\<open>{\<close>.
\<close>

theorem renderTemplate_fills_placeholders:
  "concat (map template_text (segments t)) = t \<and>
   ((\<forall>key \<in> set (keys_of (segments t)). data key \<noteq> None \<or> Object_prototype e key = None) \<longrightarrow>
      renderTemplate e t data = concat (map (fill data) (segments t))) \<and>
   (list_all well_formed segs \<and>
    (\<forall>key \<in> set (keys_of segs).
       (data key \<noteq> None \<or> Object_prototype e key = None) \<and> CHR ''{'' \<notin> set (value_of data key)) \<longrightarrow>
      (\<forall>i. placeholder_at (drop i (renderTemplate e (concat (map template_text segs)) data)) = None))"
proof (intro conjI impI allI)
  show "concat (map template_text (segments t)) = t"
    by (rule segments_text)
next
  assume h: "\<forall>key \<in> set (keys_of (segments t)). data key \<noteq> None \<or> Object_prototype e key = None"
  have m: "map (filled e data) (segments t) = map (fill data) (segments t)"
  proof (rule filled_fill)
    fix key assume "key \<in> set (keys_of (segments t))"
    with h show "data key \<noteq> None \<or> Object_prototype e key = None" by (rule bspec)
  qed
  show "renderTemplate e t data = concat (map (fill data) (segments t))"
    unfolding renderTemplate_scan m ..
next
  fix i
  assume a: "list_all well_formed segs \<and>
    (\<forall>key \<in> set (keys_of segs).
       (data key \<noteq> None \<or> Object_prototype e key = None) \<and> CHR ''{'' \<notin> set (value_of data key))"
  then have wf: "list_all well_formed segs" by (rule conjunct1)
  from a have h: "\<forall>key \<in> set (keys_of segs).
       (data key \<noteq> None \<or> Object_prototype e key = None) \<and> CHR ''{'' \<notin> set (value_of data key)"
    by (rule conjunct2)
  have "plain_text (concat (map (filled e data) segs))"
  proof (rule plain_text_filled[OF wf])
    fix key assume "key \<in> set (keys_of segs)"
    from bspec[OF h this] have "data key \<noteq> None \<or> Object_prototype e key = None"
      and "CHR ''{'' \<notin> set (value_of data key)" by simp_all
    then show "CHR ''{'' \<notin> set (data_get (Object_prototype e) data key)"
      by (cases "data key") (auto simp: data_get_def value_of_def)
  qed
  then have "re_placeholder (drop i (renderTemplate e (concat (map template_text segs)) data)) = None"
    unfolding renderTemplate_segments[OF wf] by (rule plain_text_no_placeholder)
  then show "placeholder_at (drop i (renderTemplate e (concat (map template_text segs)) data)) = None"
    by (simp only: re_placeholder_scan)
qed

text \<open>A layout with three placeholders, of which the data give two; every
  object of the sample environment inherits \<^verbatim>\<open>constructor\<close> and the like,
  which are not among the keys.\<close>

theorem renderTemplate_fills_placeholders_witness:
  "keys_of (segments sample_layout_text) = [''title'', ''content'', ''footer''] \<and>
   concat (map template_text (segments sample_layout_text)) = sample_layout_text \<and>
   renderTemplate sample_env sample_layout_text sample_data = ''<title>Hello</title><main><p>Hi</p></main>'' \<and>
   list_all well_formed sample_layout \<and>
   (\<forall>i. placeholder_at (drop i ''<title>Hello</title><main><p>Hi</p></main>'') = None)"
proof -
  note th = renderTemplate_fills_placeholders[of sample_layout_text sample_data sample_env sample_layout]
  have k: "keys_of (segments sample_layout_text) = [''title'', ''content'', ''footer'']"
    by code_simp
  have k2: "keys_of sample_layout = [''title'', ''content'', ''footer'']"
    by (simp add: keys_of_def sample_layout_def)
  have h1: "\<forall>key \<in> set (keys_of (segments sample_layout_text)).
      sample_data key \<noteq> None \<or> Object_prototype sample_env key = None"
    unfolding k by (simp add: sample_data_def sample_env_def sample_prototype_def)
  have wf: "list_all well_formed sample_layout"
    by (simp add: sample_layout_def is_word_def)
  have h2: "\<forall>key \<in> set (keys_of sample_layout).
       (sample_data key \<noteq> None \<or> Object_prototype sample_env key = None) \<and>
       CHR ''{'' \<notin> set (value_of sample_data key)"
    unfolding k2 by (simp add: sample_data_def sample_env_def sample_prototype_def value_of_def)
  have t: "concat (map template_text sample_layout) = sample_layout_text"
    by (simp add: sample_layout_def sample_layout_text_def)
  have f: "concat (map (fill sample_data) (segments sample_layout_text))
           = ''<title>Hello</title><main><p>Hi</p></main>''"
    by code_simp
  from th have 1: "concat (map template_text (segments sample_layout_text)) = sample_layout_text"
    by (rule conjunct1)
  from th h1 have "renderTemplate sample_env sample_layout_text sample_data
      = concat (map (fill sample_data) (segments sample_layout_text))"
    by blast
  then have 2: "renderTemplate sample_env sample_layout_text sample_data
      = ''<title>Hello</title><main><p>Hi</p></main>''"
    unfolding f .
  from th wf h2 have "\<forall>i. placeholder_at
      (drop i (renderTemplate sample_env (concat (map template_text sample_layout)) sample_data)) = None"
    by blast
  then have 3: "\<forall>i. placeholder_at (drop i ''<title>Hello</title><main><p>Hi</p></main>'') = None"
    unfolding t 2 .
  from k 1 2 wf 3 show ?thesis by (intro conjI)
qed

text \<open>C7 as stated fails: a value that holds a placeholder is put in as it is,
  and the placeholder stands in the result.\<close>

theorem renderTemplate_value_counterexample:
  "renderTemplate sample_env ''<main>{{content}}</main>''
     (map_of [(''content'', ''<code>{{title}}</code>''), (''title'', ''Hello'')])
   = ''<main><code>{{title}}</code></main>'' \<and>
   placeholder_at (drop 12 ''<main><code>{{title}}</code></main>'') = Some (''title'', ''</code></main>'')"
  by code_simp

subsection \<open>The search index\<close>

lemma lit_gt_dropWhile:
  "lit ''>'' Some (dropWhile (\<lambda>x. x \<noteq> CHR ''>'') cs)
     = (if CHR ''>'' \<in> set cs then Some (tl (dropWhile (\<lambda>x. x \<noteq> CHR ''>'') cs)) else None)"
proof (cases "CHR ''>'' \<in> set cs")
  case True
  then have ne: "dropWhile (\<lambda>x. x \<noteq> CHR ''>'') cs \<noteq> []" by auto
  then have "hd (dropWhile (\<lambda>x. x \<noteq> CHR ''>'') cs) = CHR ''>''"
    using hd_dropWhile[of "\<lambda>x. x \<noteq> CHR ''>''" cs] by simp
  with ne obtain t where d: "dropWhile (\<lambda>x. x \<noteq> CHR ''>'') cs = CHR ''>'' # t"
    by (cases "dropWhile (\<lambda>x. x \<noteq> CHR ''>'') cs") auto
  show ?thesis using True unfolding d by (simp add: lit_def)
next
  case False
  then have d: "dropWhile (\<lambda>x. x \<noteq> CHR ''>'') cs = []" by auto
  show ?thesis unfolding d using False by (simp add: lit_def)
qed

lemma re_tag_Cons:
  "re_tag (c # cs) =
     (if c = CHR ''<'' \<and> CHR ''>'' \<in> set cs then Some (tl (dropWhile (\<lambda>x. x \<noteq> CHR ''>'') cs)) else None)"
proof -
  have k: "\<And>a c cs. c \<noteq> CHR ''>'' \<Longrightarrow> lit ''>'' Some (c # cs) = None"
    by (simp add: lit_def)
  have sg: "star_greedy (\<lambda>c. c \<noteq> CHR ''>'') (\<lambda>_. lit ''>'' Some) [] cs
        = lit ''>'' Some (dropWhile (\<lambda>x. x \<noteq> CHR ''>'') cs)"
    by (subst star_greedy_det) (simp_all add: k)
  have "re_tag (c # cs) = (if c = CHR ''<'' then lit ''>'' Some (dropWhile (\<lambda>x. x \<noteq> CHR ''>'') cs) else None)"
    unfolding re_tag_def by (simp add: lit_def sg del: dropWhile.simps)
  then show ?thesis unfolding lit_gt_dropWhile by simp
qed

lemma set_tl_dropWhile: "set (tl (dropWhile P xs)) \<subseteq> set xs"
  by (induction xs) auto

lemma length_tl_dropWhile: "length (tl (dropWhile P xs)) \<le> length xs"
  by (induction xs) auto

lemma remove_tags_Nil: "remove_all re_tag [] = []"
  by (simp add: remove_all_def)

lemma remove_tags_Cons:
  "remove_all re_tag (c # cs) =
     (if c = CHR ''<'' \<and> CHR ''>'' \<in> set cs
      then remove_all re_tag (tl (dropWhile (\<lambda>x. x \<noteq> CHR ''>'') cs))
      else c # remove_all re_tag cs)"
  using length_tl_dropWhile[of "\<lambda>x. x \<noteq> CHR ''>''" cs]
  by (simp add: remove_all_def re_tag_Cons del: dropWhile.simps)

lemma set_remove_tags: "set (remove_all re_tag s) \<subseteq> set s"
proof (induction "length s" arbitrary: s rule: less_induct)
  case less
  show ?case
  proof (cases s)
    case Nil
    then show ?thesis by (simp add: remove_tags_Nil)
  next
    case (Cons c cs)
    let ?rest = "tl (dropWhile (\<lambda>x. x \<noteq> CHR ''>'') cs)"
    have 1: "length ?rest < length s"
      using length_tl_dropWhile[of "\<lambda>x. x \<noteq> CHR ''>''" cs] Cons by simp
    have 2: "length cs < length s" using Cons by simp
    have "set (remove_all re_tag ?rest) \<subseteq> set cs"
      using less[OF 1] set_tl_dropWhile[of "\<lambda>x. x \<noteq> CHR ''>''" cs] by blast
    then show ?thesis
      using less[OF 2] unfolding Cons remove_tags_Cons by auto
  qed
qed

lemma no_tag_tl_dropWhile: "no_tag xs \<Longrightarrow> no_tag (tl (dropWhile P xs))"
  by (induction xs) auto

lemma no_tag_remove_tags: "no_tag (remove_all re_tag s)"
proof (induction "length s" arbitrary: s rule: less_induct)
  case less
  show ?case
  proof (cases s)
    case Nil
    then show ?thesis by (simp add: remove_tags_Nil)
  next
    case (Cons c cs)
    let ?rest = "tl (dropWhile (\<lambda>x. x \<noteq> CHR ''>'') cs)"
    have 1: "length ?rest < length s"
      using length_tl_dropWhile[of "\<lambda>x. x \<noteq> CHR ''>''" cs] Cons by simp
    have 2: "length cs < length s" using Cons by simp
    show ?thesis
    proof (cases "c = CHR ''<'' \<and> CHR ''>'' \<in> set cs")
      case True
      have "remove_all re_tag s = remove_all re_tag ?rest"
        unfolding Cons by (subst remove_tags_Cons) (rule if_P[OF True])
      then show ?thesis using less[OF 1] by simp
    next
      case False
      have eq: "remove_all re_tag s = c # remove_all re_tag cs"
        unfolding Cons by (subst remove_tags_Cons) (rule if_not_P[OF False])
      have "c = CHR ''<'' \<longrightarrow> CHR ''>'' \<notin> set (remove_all re_tag cs)"
        using False set_remove_tags[of cs] by auto
      with less[OF 2] eq show ?thesis by simp
    qed
  qed
qed

lemma collapse_spaces_Nil: "collapse_spaces [] = []"
  by (simp add: collapse_spaces_def)

lemma collapse_spaces_Cons:
  "collapse_spaces (c # cs) =
     (if is_space c then CHR '' '' # collapse_spaces (dropWhile is_space cs)
      else c # collapse_spaces cs)"
  using length_dropWhile_le[of is_space cs]
  by (simp add: collapse_spaces_def re_spaces_Cons del: dropWhile.simps)

lemma set_collapse_spaces: "set (collapse_spaces s) \<subseteq> insert (CHR '' '') (set s)"
proof (induction "length s" arbitrary: s rule: less_induct)
  case less
  show ?case
  proof (cases s)
    case Nil
    then show ?thesis by (simp add: collapse_spaces_Nil)
  next
    case (Cons c cs)
    have 1: "length (dropWhile is_space cs) < length s"
      using length_dropWhile_le[of is_space cs] Cons by simp
    have 2: "length cs < length s" using Cons by simp
    show ?thesis
      using less[OF 1] less[OF 2] Cons set_dropWhileD[of _ is_space cs]
      by (auto simp: collapse_spaces_Cons simp del: dropWhile.simps)
  qed
qed

lemma no_tag_dropWhile: "no_tag xs \<Longrightarrow> no_tag (dropWhile P xs)"
  by (induction xs) auto

lemma no_tag_collapse_spaces: "no_tag s \<Longrightarrow> no_tag (collapse_spaces s)"
proof (induction "length s" arbitrary: s rule: less_induct)
  case less
  show ?case
  proof (cases s)
    case Nil
    then show ?thesis by (simp add: collapse_spaces_Nil)
  next
    case (Cons c cs)
    have nt: "no_tag cs" using less.prems Cons by simp
    show ?thesis
    proof (cases "is_space c")
      case True
      have 1: "length (dropWhile is_space cs) < length s"
        using length_dropWhile_le[of is_space cs] Cons by simp
      from less(1)[OF 1 no_tag_dropWhile[OF nt]] show ?thesis
        using True Cons by (simp add: collapse_spaces_Cons del: dropWhile.simps)
    next
      case False
      have 2: "length cs < length s" using Cons by simp
      have "c = CHR ''<'' \<longrightarrow> CHR ''>'' \<notin> set (collapse_spaces cs)"
        using less.prems Cons set_collapse_spaces[of cs] by auto
      with less(1)[OF 2 nt] show ?thesis
        using False Cons by (simp add: collapse_spaces_Cons del: dropWhile.simps)
    qed
  qed
qed

lemma no_tag_take: "no_tag xs \<Longrightarrow> no_tag (take n xs)"
proof (induction xs arbitrary: n)
  case Nil
  then show ?case by simp
next
  case (Cons c cs)
  then show ?case using set_take_subset[of _ cs] by (cases n) auto
qed

lemma rev_dropWhile_rev_take: "rev (dropWhile P (rev xs)) = take (length xs - length (takeWhile P (rev xs))) xs"
  by (simp add: dropWhile_eq_drop rev_drop)

lemma no_tag_trim: "no_tag xs \<Longrightarrow> no_tag (trim xs)"
  unfolding trim_def rev_dropWhile_rev_take
  by (intro no_tag_take no_tag_dropWhile)

lemma collapsed_collapse_spaces: "collapsed (collapse_spaces s)"
proof (induction "length s" arbitrary: s rule: less_induct)
  case less
  show ?case
  proof (cases s)
    case Nil
    then show ?thesis by (simp add: collapse_spaces_Nil)
  next
    case (Cons c cs)
    show ?thesis
    proof (cases "is_space c")
      case True
      let ?r = "dropWhile is_space cs"
      have 1: "length ?r < length s"
        using length_dropWhile_le[of is_space cs] Cons by simp
      have ih: "collapsed (collapse_spaces ?r)" by (rule less[OF 1])
      have eq: "collapse_spaces s = CHR '' '' # collapse_spaces ?r"
        using True Cons by (simp add: collapse_spaces_Cons del: dropWhile.simps)
      show ?thesis
      proof (cases ?r)
        case Nil
        then have "collapse_spaces ?r = []" by (simp only: collapse_spaces_Nil)
        with eq have "collapse_spaces s = [CHR '' '']" by simp
        then show ?thesis by simp
      next
        case (Cons d r)
        then have "\<not> is_space d" using hd_dropWhile[of is_space cs] by auto
        then have "collapse_spaces ?r = d # collapse_spaces r"
          using Cons by (simp add: collapse_spaces_Cons del: dropWhile.simps)
        with ih eq \<open>\<not> is_space d\<close> show ?thesis by simp
      qed
    next
      case False
      have 2: "length cs < length s" using Cons by simp
      have ih: "collapsed (collapse_spaces cs)" by (rule less[OF 2])
      have eq: "collapse_spaces s = c # collapse_spaces cs"
        using False Cons by (simp add: collapse_spaces_Cons del: dropWhile.simps)
      show ?thesis using ih eq False by (cases "collapse_spaces cs") auto
    qed
  qed
qed

lemma collapsed_tl: "collapsed (c # cs) \<Longrightarrow> collapsed cs"
  by (cases cs) auto

lemma collapsed_dropWhile: "collapsed xs \<Longrightarrow> collapsed (dropWhile P xs)"
  by (induction xs) (auto dest: collapsed_tl)

lemma collapsed_take: "collapsed xs \<Longrightarrow> collapsed (take n xs)"
proof (induction xs arbitrary: n rule: collapsed.induct)
  case 1
  then show ?case by simp
next
  case (2 c)
  then show ?case by (cases n) auto
next
  case (3 c d r)
  show ?case
  proof (cases n)
    case 0
    then show ?thesis by simp
  next
    case (Suc m)
    from 3 have "collapsed (take m (d # r))" by simp
    with 3(2) Suc show ?thesis by (cases m) auto
  qed
qed

lemma collapsed_trim: "collapsed xs \<Longrightarrow> collapsed (trim xs)"
  unfolding trim_def rev_dropWhile_rev_take
  by (intro collapsed_take collapsed_dropWhile)

lemma trim_no_leading_space: "trim xs = [] \<or> \<not> is_space (hd (trim xs))"
proof -
  let ?d = "dropWhile is_space xs"
  have t: "trim xs = take (length ?d - length (takeWhile is_space (rev ?d))) ?d"
    unfolding trim_def rev_dropWhile_rev_take ..
  show ?thesis
  proof (cases "trim xs = []")
    case True
    then show ?thesis by simp
  next
    case False
    then have "?d \<noteq> []" using t by auto
    then have "\<not> is_space (hd ?d)" using hd_dropWhile[of is_space xs] by simp
    moreover have "hd (trim xs) = hd ?d" using False t by (metis hd_take take_eq_Nil2 not_gr_zero take_eq_Nil)
    ultimately show ?thesis by simp
  qed
qed


lemma remove_all_Nil: "remove_all m [] = []"
  by (simp add: remove_all_def)

lemma remove_all_skip:
  assumes "\<And>c cs. c \<in> set t \<Longrightarrow> m (c # cs) = None"
  shows "remove_all m (t @ s) = t @ remove_all m s"
  using assms by (induction t) (simp_all add: remove_all_def)

lemma remove_all_match:
  assumes "m (c # cs) = Some rest" "length rest \<le> length cs"
  shows "remove_all m (c # cs) = remove_all m rest"
  using assms by (simp add: remove_all_def)

lemma star_lazy_skip:
  assumes "\<And>c a cs. c \<in> set b \<Longrightarrow> k a (c # cs) = None" "\<And>c. c \<in> set b \<Longrightarrow> p c"
  shows "star_lazy p k acc (b @ s) = star_lazy p k (acc @ b) s"
  using assms by (induction b arbitrary: acc) simp_all

lemma star_lazy_first:
  "k acc s = Some r \<Longrightarrow> star_lazy p k acc s = Some r"
  by (cases s) simp_all

lemma re_fence_fails: "c \<noteq> CHR 0x60 \<Longrightarrow> re_fence (c # cs) = None"
  by (simp add: re_fence_def lit_def numeral_3_eq_3)

lemma lit_fence_fails: "c \<noteq> CHR 0x60 \<Longrightarrow> lit (replicate 3 (CHR 0x60)) k (c # cs) = None"
  by (simp add: lit_def numeral_3_eq_3)

lemma lit_prefix: "lit l k (l @ s) = k s"
  by (simp add: lit_def)

lemma re_fence_block:
  assumes "CHR 0x60 \<notin> set b"
  shows "re_fence (replicate 3 (CHR 0x60) @ b @ replicate 3 (CHR 0x60) @ s) = Some s"
proof -
  let ?f = "replicate 3 (CHR 0x60)"
  have "star_lazy (\<lambda>_. True) (\<lambda>_. lit ?f Some) [] (b @ ?f @ s)
        = star_lazy (\<lambda>_. True) (\<lambda>_. lit ?f Some) ([] @ b) (?f @ s)"
    using assms by (intro star_lazy_skip) (auto intro: lit_fence_fails)
  also have "\<dots> = Some s"
    by (rule star_lazy_first) (simp only: lit_prefix)
  finally show ?thesis
    unfolding re_fence_def by (simp only: lit_prefix)
qed

lemma source_no_backtick:
  "well_formed_piece p \<Longrightarrow> \<not> is_fenced p \<Longrightarrow> CHR 0x60 \<notin> set (source p)"
  by (cases p) auto

lemma remove_fences:
  assumes "list_all well_formed_piece ps"
  shows "remove_all re_fence (concat (map source ps))
         = concat (map source (filter (\<lambda>p. \<not> is_fenced p) ps))"
  using assms
proof (induction ps)
  case Nil
  then show ?case by (simp add: remove_all_Nil)
next
  case (Cons p ps)
  then have ih: "remove_all re_fence (concat (map source ps))
         = concat (map source (filter (\<lambda>p. \<not> is_fenced p) ps))" by simp
  let ?s = "concat (map source ps)"
  show ?case
  proof (cases "is_fenced p")
    case True
    then obtain b where p: "p = Fenced b" by (cases p) auto
    with Cons.prems have nb: "CHR 0x60 \<notin> set b" by simp
    have "remove_all re_fence (CHR 0x60 # (replicate 2 (CHR 0x60) @ b @ replicate 3 (CHR 0x60) @ ?s))
          = remove_all re_fence ?s"
      using re_fence_block[OF nb, of ?s]
      by (intro remove_all_match) (simp_all add: numeral_3_eq_3 numeral_2_eq_2)
    then show ?thesis using ih p by (simp add: numeral_3_eq_3 numeral_2_eq_2)
  next
    case False
    with Cons.prems have "CHR 0x60 \<notin> set (source p)" by (simp add: source_no_backtick)
    then have "\<And>c cs. c \<in> set (source p) \<Longrightarrow> re_fence (c # cs) = None"
      by (auto intro!: re_fence_fails)
    from remove_all_skip[of "source p" re_fence, OF this] show ?thesis
      using ih False by simp
  qed
qed

lemma re_image_syntax_fails: "c \<noteq> CHR ''!'' \<Longrightarrow> re_image_syntax (c # cs) = None"
  by (simp add: re_image_syntax_def lit_def)

lemma lit_fails: "l \<noteq> [] \<Longrightarrow> c \<noteq> hd l \<Longrightarrow> lit l k (c # cs) = None"
  by (cases l) (auto simp: lit_def)

lemma re_image_syntax_image:
  assumes "set alt \<inter> {CHR 0x0A, CHR 0x0D, CHR '']''} = {}"
    and "set href \<inter> {CHR 0x0A, CHR 0x0D, CHR '')''} = {}"
  shows "re_image_syntax (''!['' @ alt @ '']('' @ href @ '')'' @ s) = Some s"
proof -
  let ?K2 = "\<lambda>_::string. lit '')'' Some"
  let ?K1 = "\<lambda>_::string. lit '']('' (star_lazy is_dot ?K2 [])"
  have 2: "star_lazy is_dot ?K2 [] (href @ '')'' @ s) = Some s"
  proof -
    have "star_lazy is_dot ?K2 [] (href @ '')'' @ s) = star_lazy is_dot ?K2 ([] @ href) ('')'' @ s)"
      using assms(2) by (intro star_lazy_skip) (auto simp: is_dot_def intro!: lit_fails)
    also have "\<dots> = Some s"
      by (rule star_lazy_first) (simp only: lit_prefix)
    finally show ?thesis .
  qed
  have "star_lazy is_dot ?K1 [] (alt @ '']('' @ href @ '')'' @ s)
        = star_lazy is_dot ?K1 ([] @ alt) ('']('' @ href @ '')'' @ s)"
    using assms(1) by (intro star_lazy_skip) (auto simp: is_dot_def intro!: lit_fails)
  also have "\<dots> = Some s"
    by (rule star_lazy_first) (simp only: lit_prefix 2)
  finally show ?thesis
    unfolding re_image_syntax_def by (simp only: lit_prefix)
qed

lemma source_no_bang:
  "well_formed_piece p \<Longrightarrow> \<not> is_fenced p \<Longrightarrow> \<not> is_img p \<Longrightarrow> CHR ''!'' \<notin> set (source p)"
  by (cases p) auto

lemma remove_images:
  assumes "list_all well_formed_piece ps" "list_all (\<lambda>p. \<not> is_fenced p) ps"
  shows "remove_all re_image_syntax (concat (map source ps))
         = concat (map source (filter (\<lambda>p. \<not> is_img p) ps))"
  using assms
proof (induction ps)
  case Nil
  then show ?case by (simp add: remove_all_Nil)
next
  case (Cons p ps)
  then have ih: "remove_all re_image_syntax (concat (map source ps))
         = concat (map source (filter (\<lambda>p. \<not> is_img p) ps))" by simp
  let ?s = "concat (map source ps)"
  show ?case
  proof (cases "is_img p")
    case True
    then obtain alt href where p: "p = Img alt href" by (cases p) auto
    with Cons.prems have wf: "set alt \<inter> {CHR 0x0A, CHR 0x0D, CHR '']''} = {}"
      "set href \<inter> {CHR 0x0A, CHR 0x0D, CHR '')''} = {}" by auto
    have "remove_all re_image_syntax (CHR ''!'' # (''['' @ alt @ '']('' @ href @ '')'' @ ?s))
          = remove_all re_image_syntax ?s"
      using re_image_syntax_image[OF wf, of ?s]
      by (intro remove_all_match) simp_all
    then show ?thesis using ih p by simp
  next
    case False
    with Cons.prems have "CHR ''!'' \<notin> set (source p)" by (simp add: source_no_bang)
    then have "\<And>c cs. c \<in> set (source p) \<Longrightarrow> re_image_syntax (c # cs) = None"
      by (auto intro!: re_image_syntax_fails)
    from remove_all_skip[of "source p" re_image_syntax, OF this] show ?thesis
      using ih False by simp
  qed
qed

lemma re_tag_fails: "c \<noteq> CHR ''<'' \<Longrightarrow> re_tag (c # cs) = None"
  by (simp add: re_tag_Cons)

lemma re_tag_tag:
  assumes "CHR ''>'' \<notin> set n"
  shows "re_tag (CHR ''<'' # n @ CHR ''>'' # s) = Some s"
proof -
  have "dropWhile (\<lambda>x. x \<noteq> CHR ''>'') (n @ CHR ''>'' # s) = CHR ''>'' # s"
    using assms by (induction n) auto
  then show ?thesis by (simp add: re_tag_Cons del: dropWhile.simps dropWhile_append3)
qed

lemma source_no_lt:
  "well_formed_piece p \<Longrightarrow> \<not> is_fenced p \<Longrightarrow> \<not> is_img p \<Longrightarrow> \<not> is_tag p \<Longrightarrow> CHR ''<'' \<notin> set (source p)"
  by (cases p) auto

lemma remove_tags:
  assumes "list_all well_formed_piece ps" "list_all (\<lambda>p. \<not> is_fenced p) ps" "list_all (\<lambda>p. \<not> is_img p) ps"
  shows "remove_all re_tag (concat (map source ps)) = concat (map kept ps)"
  using assms
proof (induction ps)
  case Nil
  then show ?case by (simp add: remove_all_Nil)
next
  case (Cons p ps)
  then have ih: "remove_all re_tag (concat (map source ps)) = concat (map kept ps)" by simp
  let ?s = "concat (map source ps)"
  show ?case
  proof (cases "is_tag p")
    case True
    then obtain n where p: "p = Tag n" by (cases p) auto
    with Cons.prems have wf: "CHR ''>'' \<notin> set n" by auto
    have "remove_all re_tag (CHR ''<'' # (n @ CHR ''>'' # ?s)) = remove_all re_tag ?s"
      using re_tag_tag[OF wf, of ?s]
      by (intro remove_all_match) simp_all
    then show ?thesis using ih p by simp
  next
    case False
    with Cons.prems have nl: "CHR ''<'' \<notin> set (source p)" by (simp add: source_no_lt)
    then have "\<And>c cs. c \<in> set (source p) \<Longrightarrow> re_tag (c # cs) = None"
      by (auto intro!: re_tag_fails)
    from remove_all_skip[of "source p" re_tag, OF this]
    have "remove_all re_tag (source p @ ?s) = source p @ remove_all re_tag ?s" .
    moreover have "kept p = source p" using False Cons.prems by (cases p) auto
    ultimately show ?thesis using ih by simp
  qed
qed

lemma list_all_filter: "list_all P xs \<Longrightarrow> list_all P (filter Q xs)"
  by (induction xs) auto

lemma list_all_filter_self: "list_all Q (filter Q xs)"
  by (induction xs) auto

lemma kept_filter_fenced: "concat (map kept (filter (\<lambda>p. \<not> is_fenced p) ps)) = concat (map kept ps)"
  by (induction ps) (auto elim: is_fenced.elims)

lemma kept_filter_img: "concat (map kept (filter (\<lambda>p. \<not> is_img p) ps)) = concat (map kept ps)"
  by (induction ps) (auto elim: is_img.elims)

lemma strip_pieces:
  assumes "list_all well_formed_piece ps"
  shows "remove_all re_tag (remove_all re_image_syntax (remove_all re_fence (concat (map source ps))))
         = concat (map kept ps)"
proof -
  let ?p1 = "filter (\<lambda>p. \<not> is_fenced p) ps"
  let ?p2 = "filter (\<lambda>p. \<not> is_img p) ?p1"
  have 1: "list_all well_formed_piece ?p1" "list_all (\<lambda>p. \<not> is_fenced p) ?p1"
    by (rule list_all_filter[OF assms], rule list_all_filter_self)
  have 2: "list_all well_formed_piece ?p2" "list_all (\<lambda>p. \<not> is_fenced p) ?p2"
    "list_all (\<lambda>p. \<not> is_img p) ?p2"
    by (rule list_all_filter[OF 1(1)], rule list_all_filter[OF 1(2)], rule list_all_filter_self)
  show ?thesis
    unfolding remove_fences[OF assms] remove_images[OF 1] remove_tags[OF 2]
      kept_filter_img kept_filter_fenced ..
qed

lemma those_map_Some:
  "those (map f xs) = Some ys \<Longrightarrow> length ys = length xs \<and> (\<forall>i < length xs. f (xs ! i) = Some (ys ! i))"
proof (induction xs arbitrary: ys)
  case Nil
  then show ?case by simp
next
  case (Cons x xs)
  from Cons.prems obtain y ys' where y: "f x = Some y" and t: "those (map f xs) = Some ys'"
    and ys: "ys = y # ys'"
    by (auto split: option.splits)
  from Cons.IH[OF t] have "length ys' = length xs" "\<forall>i < length xs. f (xs ! i) = Some (ys' ! i)"
    by simp_all
  then show ?case using y ys by (auto simp: nth_Cons split: nat.splits)
qed

lemma search_content_eq:
  "search_content body =
     substring0 300 (trim (collapse_spaces
       (remove_all re_tag (remove_all re_image_syntax (remove_all re_fence body)))))"
  by (simp add: search_content_def collapse_spaces_def)

lemma search_content_props:
  "length (search_content body) \<le> 300 \<and> collapsed (search_content body) \<and>
   (search_content body = [] \<or> \<not> is_space (hd (search_content body))) \<and> no_tag (search_content body)"
proof -
  let ?x = "remove_all re_tag (remove_all re_image_syntax (remove_all re_fence body))"
  let ?t = "trim (collapse_spaces ?x)"
  have 1: "collapsed ?t" by (intro collapsed_trim collapsed_collapse_spaces)
  have 2: "no_tag ?t" by (intro no_tag_trim no_tag_collapse_spaces no_tag_remove_tags)
  have 3: "?t = [] \<or> \<not> is_space (hd ?t)" by (rule trim_no_leading_space)
  have "take 300 ?t = [] \<or> \<not> is_space (hd (take 300 ?t))"
    using 3 by (cases ?t) auto
  then show ?thesis
    unfolding search_content_eq substring0_def
    using collapsed_take[OF 1, of 300] no_tag_take[OF 2, of 300] by simp
qed

lemma search_content_pieces:
  assumes "list_all well_formed_piece ps"
  shows "search_content (concat (map source ps))
         = substring0 300 (trim (collapse_spaces (concat (map kept ps))))"
  unfolding search_content_eq strip_pieces[OF assms] ..

lemma search_entry_Some:
  assumes "search_entry a = Some r"
  shows "toISOString (date a) = Some (si_date r) \<and>
         r = \<lparr>si_title = title a, si_description = description a, si_url = url a,
               si_date = si_date r, si_readTime = readTime a, si_projectName = projectName a,
               si_content = search_content (content a), si_languages = languages a,
               si_tags = tags a\<rparr>"
  using assms by (auto simp: search_entry_def split: option.splits)

text \<open>
  C5, as the code has it.  The record of the article at each position of the
  array holds the article's title, description, URL, ISO timestamp, read time,
  project name, languages and tags, and an excerpt of the body: code fences,
  then image syntax, then HTML tags are removed, whitespace is collapsed, the
  text is trimmed and cut to 300 characters.  The excerpt has at most 300
  characters, its whitespace is single spaces and none leads it, and no
  \<^verbatim>\<open><\<close> in it is followed by a \<^verbatim>\<open>>\<close>.  For a body made of well-formed
  pieces the excerpt is made from the plain text alone, whose Markdown syntax
  (headings, emphasis, links) stays as it is.
\<close>

theorem search_index_record:
  assumes "generateSearchIndex articles = Inr records" and "i < length articles"
  shows "length records = length articles \<and>
         si_title (records ! i) = title (articles ! i) \<and>
         si_description (records ! i) = description (articles ! i) \<and>
         si_url (records ! i) = url (articles ! i) \<and>
         toISOString (date (articles ! i)) = Some (si_date (records ! i)) \<and>
         si_readTime (records ! i) = readTime (articles ! i) \<and>
         si_projectName (records ! i) = projectName (articles ! i) \<and>
         si_languages (records ! i) = languages (articles ! i) \<and>
         si_tags (records ! i) = tags (articles ! i) \<and>
         si_content (records ! i) =
           substring0 300 (trim (collapse_spaces
             (remove_all re_tag (remove_all re_image_syntax (remove_all re_fence (content (articles ! i))))))) \<and>
         length (si_content (records ! i)) \<le> 300 \<and>
         collapsed (si_content (records ! i)) \<and>
         (si_content (records ! i) = [] \<or> \<not> is_space (hd (si_content (records ! i)))) \<and>
         no_tag (si_content (records ! i)) \<and>
         (\<forall>ps. list_all well_formed_piece ps \<and> content (articles ! i) = concat (map source ps) \<longrightarrow>
            si_content (records ! i) = substring0 300 (trim (collapse_spaces (concat (map kept ps)))))"
proof -
  from assms(1) have t: "those (map search_entry articles) = Some records"
    by (auto simp: generateSearchIndex_def split: option.splits)
  from those_map_Some[OF t] assms(2)
  have len: "length records = length articles"
    and e: "search_entry (articles ! i) = Some (records ! i)" by simp_all
  let ?a = "articles ! i" and ?r = "records ! i"
  from search_entry_Some[OF e] have d: "toISOString (date ?a) = Some (si_date ?r)"
    and r: "?r = \<lparr>si_title = title ?a, si_description = description ?a, si_url = url ?a,
               si_date = si_date ?r, si_readTime = readTime ?a, si_projectName = projectName ?a,
               si_content = search_content (content ?a), si_languages = languages ?a,
               si_tags = tags ?a\<rparr>" by simp_all
  have f: "si_title ?r = title ?a" "si_description ?r = description ?a" "si_url ?r = url ?a"
    "si_readTime ?r = readTime ?a" "si_projectName ?r = projectName ?a"
    "si_languages ?r = languages ?a" "si_tags ?r = tags ?a"
    "si_content ?r = search_content (content ?a)"
    by (subst r, simp)+
  have p: "\<forall>ps. list_all well_formed_piece ps \<and> content ?a = concat (map source ps) \<longrightarrow>
            si_content ?r = substring0 300 (trim (collapse_spaces (concat (map kept ps))))"
    using f(8) search_content_pieces by auto
  show ?thesis
    using len d f(1-7) p search_content_props[of "content ?a"]
    unfolding f(8) search_content_eq[symmetric] by simp
qed

lemma hello_search_index: "generateSearchIndex [hello_article] = Inr [hello_record]"
  by code_simp

lemma sample_pieces_ok: "list_all well_formed_piece sample_pieces"
  by (simp add: sample_pieces_def)

text \<open>The record of the scenario's article: the heading marker stays in the
  excerpt.  A body of six pieces: the fence, the image and the tag go.\<close>

theorem search_index_record_witness:
  "generateSearchIndex [hello_article] = Inr [hello_record] \<and>
   si_url hello_record = url hello_article \<and>
   si_content hello_record = ''# Hi Some text.'' \<and>
   length (si_content hello_record) \<le> 300 \<and>
   no_tag (si_content hello_record) \<and>
   list_all well_formed_piece sample_pieces \<and>
   search_content (concat (map source sample_pieces)) = ''# Hi see **now**''"
proof -
  have i: "(0::nat) < length [hello_article]" by simp
  note th = search_index_record[OF hello_search_index i, unfolded nth_Cons_0]
  have u: "si_url hello_record = url hello_article" using th by (elim conjE)
  have l: "length (si_content hello_record) \<le> 300" using th by (elim conjE)
  have n: "no_tag (si_content hello_record)" using th by (elim conjE)
  have c: "si_content hello_record = ''# Hi Some text.''" by (simp add: hello_record_def)
  have k: "substring0 300 (trim (collapse_spaces (concat (map kept sample_pieces)))) = ''# Hi see **now**''"
    by code_simp
  have "search_content (concat (map source sample_pieces)) = ''# Hi see **now**''"
    unfolding search_content_pieces[OF sample_pieces_ok] by (rule k)
  with u l n c hello_search_index sample_pieces_ok show ?thesis by (intro conjI)
qed

text \<open>C5 as stated fails: heading markers, emphasis markers and link syntax are
  Markdown syntax, and the excerpt keeps them.\<close>

theorem search_index_markdown_counterexample:
  "map_sum id (map si_content) (generateSearchIndex [markdown_article])
   = Inr [''## Title **bold** and [link](http://x.y)'']"
  by code_simp

subsection \<open>The matches of a repetition\<close>





subsection \<open>Parse failures\<close>










lemma new_Article_Inr:
  assumes "new_Article e now body v path = Inr a0"
  shows "\<exists>fm. properties v = Some fm \<and> content a0 = body \<and> date a0 = article_date e now (fm_date fm) \<and>
           images a0 = [] \<and> filePath a0 = path"
  using assms unfolding new_Article_def
  by (cases "properties v") (auto simp: Let_def)

lemma new_Article_succeeds:
  assumes "properties v = Some fm"
  shows "\<exists>a0. new_Article e now body v path = Inr a0"
  using assms unfolding new_Article_def by (simp add: Let_def)

text \<open>While an article is the current one, \<^verbatim>\<open>marked.parse\<close> returns exactly
  for the texts in which marked finds no image.\<close>

lemma marked_parse_current:
  assumes "currentArticleForRenderer st = Some a"
  shows "(\<exists>r. marked_parse e st src = Inr r) \<longleftrightarrow> list_all (\<lambda>t. \<not> is_image t) (marked_lexer e src)"
proof (cases "list_all (\<lambda>t. \<not> is_image t) (marked_lexer e src)")
  case True
  from render_tokens_no_image[OF this, of e st] True show ?thesis
    by (auto simp: marked_parse_def)
next
  case False
  from render_tokens_image[OF assms this, of e] False show ?thesis
    by (simp add: marked_parse_def)
qed

lemma marked_parse_error:
  assumes "currentArticleForRenderer st = Some a" "marked_parse e st src = Inl err"
  shows "err = TypeError \<and> \<not> list_all (\<lambda>t. \<not> is_image t) (marked_lexer e src)"
proof (cases "list_all (\<lambda>t. \<not> is_image t) (marked_lexer e src)")
  case True
  from render_tokens_no_image[OF this, of e st] assms(2) show ?thesis
    by (auto simp: marked_parse_def)
next
  case False
  from render_tokens_image[OF assms(1) this, of e] assms(2) False show ?thesis
    by (simp add: marked_parse_def)
qed

text \<open>What a call of \<^verbatim>\<open>parseMarkdownFile\<close> that returns has found.\<close>

lemma parse_result:
  assumes "parseMarkdownFile e now st path file = Inr (a, st')"
  shows "\<exists>doc fmText body v fm.
           file = Some doc \<and> frontmatterRegex doc = Some (fmText, body) \<and>
           yaml_load e fmText = Inr v \<and> properties v = Some fm \<and>
           list_all (\<lambda>t. \<not> is_image t) (marked_lexer e body) \<and>
           content a = body \<and> date a = article_date e now (fm_date fm) \<and>
           images a = exec_all imageRegex body \<and> filePath a = path"
proof -
  from assms obtain doc where f: "file = Some doc"
    by (cases "file") (simp_all add: parseMarkdownFile_def)
  from assms f obtain fmText body where r: "frontmatterRegex doc = Some (fmText, body)"
    by (cases "frontmatterRegex doc") (auto simp: parseMarkdownFile_def)
  from assms f r obtain v where y: "yaml_load e fmText = Inr v"
    by (cases "yaml_load e fmText") (simp_all add: parseMarkdownFile_def)
  from assms f r y obtain a0 where n: "new_Article e now body v path = Inr a0"
    by (cases "new_Article e now body v path") (simp_all add: parseMarkdownFile_def)
  from new_Article_Inr[OF n] obtain fm where p: "properties v = Some fm" and c: "content a0 = body"
    and d: "date a0 = article_date e now (fm_date fm)" and i: "images a0 = []" and fp: "filePath a0 = path"
    by blast
  let ?a1 = "a0\<lparr>images := images a0 @ exec_all imageRegex body\<rparr>"
  let ?st2 = "st\<lparr>currentArticleLanguages := [], currentArticleForRenderer := Some ?a1\<rparr>"
  from assms f r y n obtain html st3 where m: "marked_parse e ?st2 body = Inr (html, st3)"
    and a: "a = ?a1\<lparr>languages := currentArticleLanguages st3\<rparr>"
    by (cases "marked_parse e ?st2 body") (auto simp: parseMarkdownFile_def Let_def c)
  have "currentArticleForRenderer ?st2 = Some ?a1" by simp
  from marked_parse_current[OF this, of e body] m
  have l: "list_all (\<lambda>t. \<not> is_image t) (marked_lexer e body)" by simp
  from a c d i fp have "content a = body" "date a = article_date e now (fm_date fm)"
    "images a = exec_all imageRegex body" "filePath a = path" by simp_all
  with f r y p l show ?thesis by blast
qed

lemma parse_succeeds:
  assumes "frontmatterRegex doc = Some (fmText, body)" "yaml_load e fmText = Inr v"
    "properties v = Some fm" "list_all (\<lambda>t. \<not> is_image t) (marked_lexer e body)"
  shows "\<exists>a st'. parseMarkdownFile e now st path (Some doc) = Inr (a, st')"
proof -
  from new_Article_succeeds[OF assms(3), of e now body path] obtain a0 where
    n: "new_Article e now body v path = Inr a0" by blast
  from new_Article_Inr[OF n] have c: "content a0 = body" by blast
  let ?a1 = "a0\<lparr>images := images a0 @ exec_all imageRegex body\<rparr>"
  let ?st2 = "st\<lparr>currentArticleLanguages := [], currentArticleForRenderer := Some ?a1\<rparr>"
  have "currentArticleForRenderer ?st2 = Some ?a1" by simp
  from marked_parse_current[OF this, of e body] assms(4)
  obtain html st3 where m: "marked_parse e ?st2 body = Inr (html, st3)" by auto
  from assms(1,2) n m show ?thesis
    by (simp add: parseMarkdownFile_def Let_def c)
qed





text \<open>The articles that \<^verbatim>\<open>parse_files\<close> returns are those of the files, in
  the order of the files.\<close>

lemma parse_files_articles:
  assumes "parse_files e clock fs st files = Inr (articles, st')"
  shows "list_all2 (\<lambda>f a. \<exists>st1 st2. parseMarkdownFile e (clock f) st1 f (readFile fs f) = Inr (a, st2))
           files articles"
  using assms
proof (induction files arbitrary: st articles)
  case Nil
  then show ?case by simp
next
  case (Cons f files)
  from Cons.prems obtain a st1 where p: "parseMarkdownFile e (clock f) st f (readFile fs f) = Inr (a, st1)"
    by (cases "parseMarkdownFile e (clock f) st f (readFile fs f)") auto
  from Cons.prems p obtain arts where q: "parse_files e clock fs st1 files = Inr (arts, st')"
    and a: "articles = a # arts"
    by (cases "parse_files e clock fs st1 files") auto
  from Cons.IH[OF q] p a show ?case by auto
qed

lemma parse_files_succeeds:
  assumes "\<And>f st. f \<in> set files \<Longrightarrow> \<exists>a st'. parseMarkdownFile e (clock f) st f (readFile fs f) = Inr (a, st')"
  shows "\<exists>articles st'. parse_files e clock fs st files = Inr (articles, st')"
  using assms
proof (induction files arbitrary: st)
  case Nil
  then show ?case by simp
next
  case (Cons f files)
  from Cons.prems[of f st] obtain a st1 where
    p: "parseMarkdownFile e (clock f) st f (readFile fs f) = Inr (a, st1)" by auto
  have "\<exists>articles st'. parse_files e clock fs st1 files = Inr (articles, st')"
    by (rule Cons.IH) (simp add: Cons.prems)
  with p show ?case by auto
qed

subsection \<open>The build as a whole\<close>

text \<open>The generators fail on an invalid date only, so that a build whose files
  are read and parsed to articles with valid dates ends with exit code 0.\<close>

lemma toISOString_None: "toISOString d = None \<longleftrightarrow> d = None"
  by (cases d) (simp_all add: toISOString_def Let_def split: prod.splits)

lemma those_map_None: "those (map f xs) = None \<longleftrightarrow> (\<exists>x \<in> set xs. f x = None)"
  by (induction xs) (auto split: option.splits)

lemma index_card_None: "index_card e a = None \<longleftrightarrow> date a = None"
  using toISOString_None[of "date a"]
  by (cases "toISOString (date a)") (simp_all add: index_card_def Let_def)

lemma project_article_None: "project_article e a = None \<longleftrightarrow> date a = None"
  using toISOString_None[of "date a"]
  by (cases "toISOString (date a)") (simp_all add: project_article_def Let_def)

lemma search_entry_None: "search_entry a = None \<longleftrightarrow> date a = None"
  using toISOString_None[of "date a"]
  by (cases "toISOString (date a)") (simp_all add: search_entry_def)

lemma set_sort_by_date_desc: "set (sort_by_date_desc articles) = set articles"
  by (simp add: sort_by_date_desc_def)

lemma generateIndexHTML_succeeds:
  assumes "\<forall>a \<in> set articles. date a \<noteq> None"
  shows "\<exists>html. generateIndexHTML e articles tpls styles = Inr (html, sort_by_date_desc articles)"
proof -
  have "those (map (index_card e) (sort_by_date_desc articles)) \<noteq> None"
    using assms by (simp add: those_map_None index_card_None set_sort_by_date_desc)
  then obtain cards where "those (map (index_card e) (sort_by_date_desc articles)) = Some cards"
    by blast
  then show ?thesis by (simp add: generateIndexHTML_def Let_def)
qed

lemma generateSearchIndex_succeeds:
  assumes "\<forall>a \<in> set articles. date a \<noteq> None"
  shows "\<exists>records. generateSearchIndex articles = Inr records"
proof -
  have "those (map search_entry articles) \<noteq> None"
    using assms by (simp add: those_map_None search_entry_None)
  then obtain records where "those (map search_entry articles) = Some records"
    by blast
  then show ?thesis by (simp add: generateSearchIndex_def)
qed

lemma projectsMap_push_subset:
  assumes m: "\<And>k arts. (k, arts) \<in> set m \<Longrightarrow> set arts \<subseteq> S" and a: "a \<in> S"
    and n: "(k, arts) \<in> set (projectsMap_push a m)"
  shows "set arts \<subseteq> S"
proof (cases "projectName a \<in> fst ` set m")
  case True
  with n obtain k' arts' where e: "(k', arts') \<in> set m"
    and c: "(k, arts) = (if k' = projectName a then (k', arts' @ [a]) else (k', arts'))"
    by (auto simp: projectsMap_push_def)
  from m[OF e] a c show ?thesis by (auto split: if_splits)
next
  case False
  with n have "(k, arts) \<in> set m \<or> arts = [a]"
    by (auto simp: projectsMap_push_def)
  with m a show ?thesis by auto
qed

lemma projectsMap_subset:
  assumes "\<And>k arts. (k, arts) \<in> set m \<Longrightarrow> set arts \<subseteq> S" and "set xs \<subseteq> S"
    and "(k, arts) \<in> set (foldl (\<lambda>m a. projectsMap_push a m) m xs)"
  shows "set arts \<subseteq> S"
  using assms
proof (induction xs arbitrary: m)
  case Nil
  then show ?case by simp
next
  case (Cons x xs)
  have "set arts \<subseteq> S"
  proof (rule Cons.IH[of "projectsMap_push x m"])
    fix k' arts'
    assume "(k', arts') \<in> set (projectsMap_push x m)"
    with Cons.prems(1,2) show "set arts' \<subseteq> S"
      using projectsMap_push_subset[of m S x k' arts'] by simp
  next
    from Cons.prems(2) show "set xs \<subseteq> S" by simp
  next
    from Cons.prems(3) show "(k, arts) \<in> set (foldl (\<lambda>m a. projectsMap_push a m) (projectsMap_push x m) xs)"
      by simp
  qed
  then show ?case .
qed

lemma project_section_None:
  "project_section e entry = None \<longleftrightarrow> (\<exists>a \<in> set (snd entry). date a = None)"
proof -
  have "those (map (project_article e) (snd entry)) = None \<longleftrightarrow> (\<exists>a \<in> set (snd entry). date a = None)"
    by (simp add: those_map_None project_article_None)
  then show ?thesis
    by (cases "those (map (project_article e) (snd entry))") (simp_all add: project_section_def)
qed

lemma generateProjectsHTML_succeeds:
  assumes "\<forall>a \<in> set articles. date a \<noteq> None"
  shows "\<exists>html. generateProjectsHTML e articles tpls styles = Inr html"
proof -
  let ?m = "foldl (\<lambda>m a. projectsMap_push a m) [] (filter isProject articles)"
  let ?s = "map (\<lambda>(k, arts). (k, sort_by_date_desc arts)) ?m"
  have "project_section e entry \<noteq> None" if "entry \<in> set ?s" for entry
  proof -
    from that obtain k arts where m: "(k, arts) \<in> set ?m" and e: "entry = (k, sort_by_date_desc arts)"
      by auto
    have "set arts \<subseteq> set articles"
      by (rule projectsMap_subset[where m = "[]" and xs = "filter isProject articles", OF _ _ m]) auto
    with assms e show ?thesis
      by (auto simp: project_section_None set_sort_by_date_desc)
  qed
  then have "those (map (project_section e) ?s) \<noteq> None"
    unfolding those_map_None by blast
  then obtain sections where "those (map (project_section e) ?s) = Some sections"
    by blast
  then show ?thesis by (simp add: generateProjectsHTML_def Let_def)
qed

text \<open>An article in whose body marked finds no image gets its page.\<close>

lemma generateArticleHTML_succeeds:
  assumes "list_all (\<lambda>t. \<not> is_image t) (marked_lexer e (content a))"
  shows "\<exists>html st'. generateArticleHTML e st a tpls styles = Inr (html, st')"
proof -
  let ?st1 = "st\<lparr>currentArticleForRenderer := Some a\<rparr>"
  have "currentArticleForRenderer ?st1 = Some a" by simp
  from marked_parse_current[OF this, of e "content a"] assms
  obtain htmlContent st2 where "marked_parse e ?st1 (content a) = Inr (htmlContent, st2)" by auto
  then show ?thesis by (simp add: generateArticleHTML_def Let_def)
qed

lemma write_articles_succeeds:
  assumes "\<forall>a \<in> set articles. list_all (\<lambda>t. \<not> is_image t) (marked_lexer e (content a))"
  shows "\<exists>ops st'. write_articles e st tpls styles articles = (ops, Inr st')"
  using assms
proof (induction articles arbitrary: st)
  case Nil
  then show ?case by simp
next
  case (Cons a articles)
  from Cons.prems have "list_all (\<lambda>t. \<not> is_image t) (marked_lexer e (content a))" by simp
  from generateArticleHTML_succeeds[OF this, of st tpls styles] obtain html st1 where
    g: "generateArticleHTML e st a tpls styles = Inr (html, st1)" by blast
  from Cons obtain ops st' where "write_articles e st1 tpls styles articles = (ops, Inr st')"
    by fastforce
  with g show ?case by simp
qed

lemma parsed_articles:
  assumes "parse_files e clock fs st files = Inr (articles, st')" "a \<in> set articles"
  shows "\<exists>f st1 st2. f \<in> set files \<and> parseMarkdownFile e (clock f) st1 f (readFile fs f) = Inr (a, st2)"
proof -
  from assms(2) obtain i where i: "i < length articles" "articles ! i = a"
    by (auto simp: in_set_conv_nth)
  from list_all2_nthD2[OF parse_files_articles[OF assms(1)] i(1)] i(2) obtain st1 st2 where
    "parseMarkdownFile e (clock (files ! i)) st1 (files ! i) (readFile fs (files ! i)) = Inr (a, st2)"
    by auto
  moreover from list_all2_lengthD[OF parse_files_articles[OF assms(1)]] i(1)
  have "files ! i \<in> set files" by simp
  ultimately show ?thesis by blast
qed

lemma parsed_articles_no_image:
  assumes "parse_files e clock fs st files = Inr (articles, st')"
  shows "\<forall>a \<in> set articles. list_all (\<lambda>t. \<not> is_image t) (marked_lexer e (content a))"
proof
  fix a assume "a \<in> set articles"
  from parsed_articles[OF assms this] obtain f st1 st2 where
    "parseMarkdownFile e (clock f) st1 f (readFile fs f) = Inr (a, st2)" by blast
  from parse_result[OF this] show "list_all (\<lambda>t. \<not> is_image t) (marked_lexer e (content a))"
    by auto
qed

lemma build_succeeds:
  assumes s: "readFile fs STYLES_PATH = Some styles"
    and t: "loadTemplates fs = Some tpls"
    and p: "parse_files e clock fs \<lparr>currentArticleLanguages = [], currentArticleForRenderer = None\<rparr>
              (markdownFiles fs) = Inr (articles, st)"
    and d: "\<forall>a \<in> set articles. date a \<noteq> None"
  shows "exit_code (build e clock fs) = 0"
proof -
  from write_articles_succeeds[OF parsed_articles_no_image[OF p], of st tpls styles]
  obtain ops1 st2 where w: "write_articles e st tpls styles articles = (ops1, Inr st2)"
    by blast
  from generateIndexHTML_succeeds[OF d] obtain indexHTML where
    i: "generateIndexHTML e articles tpls styles = Inr (indexHTML, sort_by_date_desc articles)"
    by blast
  from d have d': "\<forall>a \<in> set (sort_by_date_desc articles). date a \<noteq> None"
    by (simp add: set_sort_by_date_desc)
  from generateProjectsHTML_succeeds[OF d'] obtain projectsHTML where
    j: "generateProjectsHTML e (sort_by_date_desc articles) tpls styles = Inr projectsHTML"
    by blast
  from generateSearchIndex_succeeds[OF d'] obtain records where
    k: "generateSearchIndex (sort_by_date_desc articles) = Inr records"
    by blast
  show ?thesis using s t p w i j k by (simp add: build_def Let_def)
qed

text \<open>The array that \<^verbatim>\<open>generateIndexHTML\<close> leaves, and what a successful build
  has done: the index page, the projects page and the search index are made
  from the sorted array.\<close>

lemma generateIndexHTML_array:
  "generateIndexHTML e articles tpls styles = Inr (html, articles') \<Longrightarrow> articles' = sort_by_date_desc articles"
  by (auto simp: generateIndexHTML_def Let_def split: option.splits)

lemma generateIndexHTML_dates:
  assumes "generateIndexHTML e articles tpls styles = Inr r"
  shows "\<forall>a \<in> set articles. date a \<noteq> None"
proof -
  from assms have "those (map (index_card e) (sort_by_date_desc articles)) \<noteq> None"
    by (cases "those (map (index_card e) (sort_by_date_desc articles))")
       (simp_all add: generateIndexHTML_def Let_def)
  then show ?thesis
    by (simp add: those_map_None index_card_None set_sort_by_date_desc)
qed

lemma copy_images_no_json:
  "concat (map (\<lambda>op. case op of WriteJson p records \<Rightarrow> records | _ \<Rightarrow> []) (copy_images a)) = []"
  by (simp add: copy_images_def Let_def comp_def)

lemma write_articles_no_json:
  "concat (map (\<lambda>op. case op of WriteJson p records \<Rightarrow> records | _ \<Rightarrow> [])
     (fst (write_articles e st tpls styles arts))) = []"
proof (induction arts arbitrary: st)
  case Nil
  then show ?case by simp
next
  case (Cons a arts)
  show ?case
  proof (cases "generateArticleHTML e st a tpls styles")
    case (Inl err)
    then show ?thesis by simp
  next
    case (Inr r)
    obtain h st1 where r: "r = (h, st1)" by (cases r)
    obtain ops res where w: "write_articles e st1 tpls styles arts = (ops, res)"
      by (cases "write_articles e st1 tpls styles arts")
    from Cons[of st1] w have "concat (map (\<lambda>op. case op of WriteJson p records \<Rightarrow> records | _ \<Rightarrow> []) ops) = []"
      by simp
    then show ?thesis using Inr r w by (simp add: copy_images_no_json)
  qed
qed

lemma build_success:
  assumes "exit_code (build e clock fs) = 0"
  shows "\<exists>articles st styles tpls indexHTML projectsHTML.
          parse_files e clock fs \<lparr>currentArticleLanguages = [], currentArticleForRenderer = None\<rparr>
            (markdownFiles fs) = Inr (articles, st) \<and>
          readFile fs STYLES_PATH = Some styles \<and>
          loadTemplates fs = Some tpls \<and>
          generateIndexHTML e articles tpls styles = Inr (indexHTML, sort_by_date_desc articles) \<and>
          generateProjectsHTML e (sort_by_date_desc articles) tpls styles = Inr projectsHTML \<and>
          generateSearchIndex (sort_by_date_desc articles) = Inr (search_index_of (build e clock fs)) \<and>
          WriteFile (join [DIST_DIR, ''index.html'']) indexHTML \<in> set (fs_ops (build e clock fs)) \<and>
          WriteFile (join [DIST_DIR, ''projects'', ''index.html'']) projectsHTML
            \<in> set (fs_ops (build e clock fs))"
proof -
  let ?st0 = "\<lparr>currentArticleLanguages = [], currentArticleForRenderer = None\<rparr>"
  from assms obtain styles where s: "readFile fs STYLES_PATH = Some styles"
    by (cases "readFile fs STYLES_PATH") (auto simp: build_def Let_def)
  from assms s obtain tpls where t: "loadTemplates fs = Some tpls"
    by (cases "loadTemplates fs") (auto simp: build_def Let_def)
  from assms s t obtain articles st1 where p: "parse_files e clock fs ?st0 (markdownFiles fs) = Inr (articles, st1)"
    by (cases "parse_files e clock fs ?st0 (markdownFiles fs)") (auto simp: build_def Let_def)
  obtain ops1 res where w0: "write_articles e st1 tpls styles articles = (ops1, res)"
    by (cases "write_articles e st1 tpls styles articles")
  from assms s t p w0 obtain st2 where w: "write_articles e st1 tpls styles articles = (ops1, Inr st2)"
    by (cases res) (auto simp: build_def Let_def)
  from assms s t p w obtain indexHTML articles' where
    i: "generateIndexHTML e articles tpls styles = Inr (indexHTML, articles')"
    by (cases "generateIndexHTML e articles tpls styles") (auto simp: build_def Let_def)
  from generateIndexHTML_array[OF i] have a': "articles' = sort_by_date_desc articles" .
  from assms s t p w i obtain projectsHTML where
    j: "generateProjectsHTML e articles' tpls styles = Inr projectsHTML"
    by (cases "generateProjectsHTML e articles' tpls styles") (auto simp: build_def Let_def)
  from assms s t p w i j obtain searchIndex where
    k: "generateSearchIndex articles' = Inr searchIndex"
    by (cases "generateSearchIndex articles'") (auto simp: build_def Let_def)
  have n: "concat (map (\<lambda>op. case op of WriteJson p records \<Rightarrow> records | _ \<Rightarrow> []) ops1) = []"
    using write_articles_no_json[of e st1 tpls styles articles] w by simp
  have b: "fs_ops (build e clock fs) =
      [Mkdir DIST_DIR] @ ops1 @ [WriteFile (join [DIST_DIR, ''index.html'']) indexHTML] @
      [Mkdir (join [DIST_DIR, ''projects'']),
       WriteFile (join [DIST_DIR, ''projects'', ''index.html'']) projectsHTML] @
      [Mkdir (join [DIST_DIR, ''images'']), CpDir IMAGES_DIR (join [DIST_DIR, ''images''])] @
      [WriteJson (join [DIST_DIR, ''search-index.json'']) searchIndex] @
      [WriteFile (join [DIST_DIR, ''404.html'']) (generate404HTML e tpls styles)]"
    using s t p w i j k by (simp add: build_def Let_def)
  have x: "search_index_of (build e clock fs) = searchIndex"
    unfolding search_index_of_def b using n by simp
  have y: "WriteFile (join [DIST_DIR, ''index.html'']) indexHTML \<in> set (fs_ops (build e clock fs))"
    unfolding b by simp
  have z: "WriteFile (join [DIST_DIR, ''projects'', ''index.html'']) projectsHTML \<in> set (fs_ops (build e clock fs))"
    unfolding b by simp
  from s t p i j k x y z show ?thesis unfolding a' by blast
qed

lemma sort_by_date_desc_props:
  "mset (sort_by_date_desc articles) = mset articles \<and>
   sorted (map date_key (sort_by_date_desc articles)) \<and>
   (\<forall>k. filter (\<lambda>a. date_key a = k) (sort_by_date_desc articles) = filter (\<lambda>a. date_key a = k) articles) \<and>
   (sort_by_date_desc articles = articles \<longleftrightarrow> sorted (map date_key articles))"
proof -
  have "sort_by_date_desc articles = articles \<Longrightarrow> sorted (map date_key articles)"
    using sorted_sort_key[of date_key articles] by (simp add: sort_by_date_desc_def)
  then show ?thesis
    by (auto simp: sort_by_date_desc_def sort_key_stable sort_key_id_if_sorted)
qed

text \<open>The build ends with exit code 0 exactly for the sites in order.\<close>

lemma file_in_order_parses:
  assumes "file_in_order e clock fs f"
  shows "\<exists>a st'. parseMarkdownFile e (clock f) st f (readFile fs f) = Inr (a, st') \<and> date a \<noteq> None"
proof -
  from assms obtain doc where r: "readFile fs f = Some doc"
    by (cases "readFile fs f") (simp_all add: file_in_order_def)
  from assms r obtain fmText body where m: "frontmatterRegex doc = Some (fmText, body)"
    by (cases "frontmatterRegex doc") (auto simp: file_in_order_def)
  from assms r m obtain v where y: "yaml_load e fmText = Inr v"
    by (cases "yaml_load e fmText") (simp_all add: file_in_order_def)
  from assms r m y obtain fm where p: "properties v = Some fm"
    by (cases "properties v") (simp_all add: file_in_order_def)
  from assms r m y p have l: "list_all (\<lambda>t. \<not> is_image t) (marked_lexer e body)"
    and d: "article_date e (clock f) (fm_date fm) \<noteq> None"
    by (simp_all add: file_in_order_def)
  from parse_succeeds[OF m y p l, of "clock f" st f] obtain a st' where
    q: "parseMarkdownFile e (clock f) st f (Some doc) = Inr (a, st')" by blast
  from parse_result[OF q] m y p have "date a = article_date e (clock f) (fm_date fm)" by auto
  with q r d show ?thesis by auto
qed

lemma parsed_file_in_order:
  assumes "parseMarkdownFile e (clock f) st f (readFile fs f) = Inr (a, st')" "date a \<noteq> None"
  shows "file_in_order e clock fs f"
proof -
  from parse_result[OF assms(1)] obtain doc fmText body v fm where
    "readFile fs f = Some doc" "frontmatterRegex doc = Some (fmText, body)"
    "yaml_load e fmText = Inr v" "properties v = Some fm"
    "list_all (\<lambda>t. \<not> is_image t) (marked_lexer e body)"
    "date a = article_date e (clock f) (fm_date fm)"
    by blast
  with assms(2) show ?thesis by (simp add: file_in_order_def)
qed

lemma parse_files_dates:
  assumes "list_all (file_in_order e clock fs) files"
  shows "\<exists>articles st'. parse_files e clock fs st files = Inr (articles, st') \<and>
           (\<forall>a \<in> set articles. date a \<noteq> None)"
  using assms
proof (induction files arbitrary: st)
  case Nil
  then show ?case by simp
next
  case (Cons f files)
  then have "file_in_order e clock fs f" by simp
  from file_in_order_parses[OF this, of st] obtain a st1 where
    p: "parseMarkdownFile e (clock f) st f (readFile fs f) = Inr (a, st1)" and d: "date a \<noteq> None"
    by blast
  from Cons obtain articles st' where "parse_files e clock fs st1 files = Inr (articles, st')"
    "\<forall>a \<in> set articles. date a \<noteq> None"
    by fastforce
  with p d show ?case by simp
qed

lemma build_exit_code: "exit_code (build e clock fs) = 0 \<longleftrightarrow> site_in_order e clock fs"
proof
  assume "exit_code (build e clock fs) = 0"
  from build_success[OF this] obtain articles st styles tpls indexHTML where
    p: "parse_files e clock fs \<lparr>currentArticleLanguages = [], currentArticleForRenderer = None\<rparr>
          (markdownFiles fs) = Inr (articles, st)"
    and s: "readFile fs STYLES_PATH = Some styles" and t: "loadTemplates fs = Some tpls"
    and i: "generateIndexHTML e articles tpls styles = Inr (indexHTML, sort_by_date_desc articles)"
    by blast
  from generateIndexHTML_dates[OF i] have d: "\<forall>a \<in> set articles. date a \<noteq> None" .
  have "file_in_order e clock fs f" if "f \<in> set (markdownFiles fs)" for f
  proof -
    from that obtain i where i: "i < length (markdownFiles fs)" "markdownFiles fs ! i = f"
      by (auto simp: in_set_conv_nth)
    from list_all2_nthD[OF parse_files_articles[OF p] i(1)] i(2) obtain st1 st2 where
      q: "parseMarkdownFile e (clock f) st1 f (readFile fs f) = Inr (articles ! i, st2)"
      by auto
    from list_all2_lengthD[OF parse_files_articles[OF p]] i(1) have "articles ! i \<in> set articles"
      by simp
    with d have "date (articles ! i) \<noteq> None" by blast
    with q show ?thesis by (rule parsed_file_in_order)
  qed
  with s t show "site_in_order e clock fs"
    by (simp add: site_in_order_def list_all_iff)
next
  assume "site_in_order e clock fs"
  then obtain styles tpls where s: "readFile fs STYLES_PATH = Some styles"
    and t: "loadTemplates fs = Some tpls"
    and l: "list_all (file_in_order e clock fs) (markdownFiles fs)"
    by (auto simp: site_in_order_def)
  from parse_files_dates[OF l] obtain articles st where
    "parse_files e clock fs \<lparr>currentArticleLanguages = [], currentArticleForRenderer = None\<rparr>
       (markdownFiles fs) = Inr (articles, st)" "\<forall>a \<in> set articles. date a \<noteq> None"
    by blast
  from build_succeeds[OF s t this] show "exit_code (build e clock fs) = 0" .
qed

lemma build_exit_code_1: "exit_code (build e clock fs) \<noteq> 0 \<longleftrightarrow> exit_code (build e clock fs) = 1"
  unfolding build_def
  by (auto simp: Let_def split: option.splits sum.splits prod.splits)

text \<open>The files of the sample sites.\<close>

lemma site_styles: "readFile (site_of files) STYLES_PATH = Some ''body{}''"
  by (simp add: site_of_def STYLES_PATH_def)

lemma site_templates: "loadTemplates (site_of files) = Some sample_templates"
  by (simp add: loadTemplates_def site_of_def join_def normalize_def TEMPLATES_DIR_def)

text \<open>The clock is read by the \<^verbatim>\<open>Article\<close> constructor only, for a frontmatter
  that gives no date.\<close>

lemma article_date_clock:
  "date_given d \<Longrightarrow> article_date e now1 d = article_date e now2 d"
  by (simp add: article_date_def)

lemma new_Article_clock:
  assumes "case properties v of None \<Rightarrow> True | Some fm \<Rightarrow> date_given (fm_date fm)"
  shows "new_Article e now1 body v path = new_Article e now2 body v path"
proof (cases "properties v")
  case None
  then show ?thesis by (simp add: new_Article_def)
next
  case (Some fm)
  with assms have "date_given (fm_date fm)" by simp
  from article_date_clock[OF this, of e now1 now2] Some show ?thesis
    by (simp add: new_Article_def)
qed

lemma parseMarkdownFile_clock:
  assumes "case contents of
         None \<Rightarrow> True
       | Some doc \<Rightarrow>
           (case frontmatterRegex doc of
              None \<Rightarrow> True
            | Some (fmText, body) \<Rightarrow>
                (case yaml_load e fmText of
                   Inl err \<Rightarrow> True
                 | Inr v \<Rightarrow>
                     (case properties v of
                        None \<Rightarrow> True
                      | Some fm \<Rightarrow> date_given (fm_date fm))))"
  shows "parseMarkdownFile e now1 st path contents = parseMarkdownFile e now2 st path contents"
proof (cases contents)
  case None
  then show ?thesis by (simp add: parseMarkdownFile_def)
next
  case (Some doc)
  show ?thesis
  proof (cases "frontmatterRegex doc")
    case None
    with Some show ?thesis by (simp add: parseMarkdownFile_def)
  next
    case fm: (Some p)
    obtain fmText body where p: "p = (fmText, body)" by (cases p)
    show ?thesis
    proof (cases "yaml_load e fmText")
      case (Inl x)
      with Some fm p show ?thesis by (simp add: parseMarkdownFile_def)
    next
      case (Inr v)
      with assms Some fm p
      have "case properties v of None \<Rightarrow> True | Some fm \<Rightarrow> date_given (fm_date fm)" by simp
      from new_Article_clock[OF this, of e now1 body path now2]
      show ?thesis using Some fm p Inr by (simp add: parseMarkdownFile_def)
    qed
  qed
qed

lemma parse_files_clock:
  assumes "list_all (\<lambda>f.
       case readFile fs f of
         None \<Rightarrow> True
       | Some doc \<Rightarrow>
           (case frontmatterRegex doc of
              None \<Rightarrow> True
            | Some (fmText, body) \<Rightarrow>
                (case yaml_load e fmText of
                   Inl err \<Rightarrow> True
                 | Inr v \<Rightarrow>
                     (case properties v of
                        None \<Rightarrow> True
                      | Some fm \<Rightarrow> date_given (fm_date fm))))) files"
  shows "parse_files e clock1 fs st files = parse_files e clock2 fs st files"
  using assms
proof (induction files arbitrary: st)
  case Nil
  then show ?case by simp
next
  case (Cons f files)
  then have 1: "parseMarkdownFile e (clock1 f) st f (readFile fs f)
      = parseMarkdownFile e (clock2 f) st f (readFile fs f)"
    by (intro parseMarkdownFile_clock) simp
  from Cons have 2: "\<And>st. parse_files e clock1 fs st files = parse_files e clock2 fs st files" by simp
  show ?case unfolding parse_files.simps 1 2 ..
qed

lemma build_clock:
  assumes "every_date_given e fs"
  shows "build e clock1 fs = build e clock2 fs"
proof -
  have eq: "parse_files e clock1 fs \<lparr>currentArticleLanguages = [], currentArticleForRenderer = None\<rparr> (markdownFiles fs)
          = parse_files e clock2 fs \<lparr>currentArticleLanguages = [], currentArticleForRenderer = None\<rparr> (markdownFiles fs)"
    by (rule parse_files_clock[OF assms[unfolded every_date_given_def]])
  show ?thesis unfolding build_def Let_def eq ..
qed

subsection \<open>The pages of the sample templates\<close>

text \<open>Occurrences of a text.\<close>

lemma startsWith_iff: "startsWith t s \<longleftrightarrow> (\<exists>v. t = s @ v)"
proof
  assume "startsWith t s"
  then have "t = s @ drop (length s) t"
    unfolding startsWith_def by (metis append_take_drop_id)
  then show "\<exists>v. t = s @ v" ..
next
  assume "\<exists>v. t = s @ v"
  then show "startsWith t s" by (auto simp: startsWith_def)
qed

lemma occurs_in_iff: "occurs_in s t \<longleftrightarrow> (\<exists>u v. t = u @ s @ v)"
proof (induction t)
  case Nil
  then show ?case by simp
next
  case (Cons c t)
  show ?case
  proof
    assume "occurs_in s (c # t)"
    then consider "startsWith (c # t) s" | "occurs_in s t" by auto
    then show "\<exists>u v. c # t = u @ s @ v"
    proof cases
      case 1
      then obtain v where "c # t = s @ v" unfolding startsWith_iff ..
      then have "c # t = [] @ s @ v" by simp
      then show ?thesis by blast
    next
      case 2
      with Cons obtain u v where "t = u @ s @ v" by blast
      then have "c # t = (c # u) @ s @ v" by simp
      then show ?thesis by blast
    qed
  next
    assume "\<exists>u v. c # t = u @ s @ v"
    then obtain u v where e: "c # t = u @ s @ v" by blast
    show "occurs_in s (c # t)"
    proof (cases u)
      case Nil
      with e have "startsWith (c # t) s" unfolding startsWith_iff by auto
      then show ?thesis by simp
    next
      case (Cons d u')
      with e have "t = u' @ s @ v" by simp
      with Cons.IH have "occurs_in s t" by blast
      then show ?thesis by simp
    qed
  qed
qed

lemma occurs_in_here: "occurs_in (a @ b @ c @ d @ e) (a @ b @ c @ d @ e @ rest)"
  unfolding occurs_in_iff by (intro exI[of _ "[]"] exI[of _ rest]) simp

lemma occurs_in_refl: "occurs_in s s"
  unfolding occurs_in_iff by (intro exI[of _ "[]"]) simp

lemma occurs_in_append_left: "occurs_in s t \<Longrightarrow> occurs_in s (a @ t)"
  unfolding occurs_in_iff
proof -
  assume "\<exists>u v. t = u @ s @ v"
  then obtain u v where "t = u @ s @ v" by blast
  then have "a @ t = (a @ u) @ s @ v" by simp
  then show "\<exists>u v. a @ t = u @ s @ v" by blast
qed

lemma occurs_in_append_right: "occurs_in s t \<Longrightarrow> occurs_in s (t @ b)"
  unfolding occurs_in_iff
proof -
  assume "\<exists>u v. t = u @ s @ v"
  then obtain u v where "t = u @ s @ v" by blast
  then have "t @ b = u @ s @ (v @ b)" by simp
  then show "\<exists>u v. t @ b = u @ s @ v" by blast
qed

lemma occurs_in_concat: "t \<in> set ts \<Longrightarrow> occurs_in s t \<Longrightarrow> occurs_in s (concat ts)"
proof (induction ts)
  case Nil
  then show ?case by simp
next
  case (Cons x ts)
  then show ?case
    by (auto intro: occurs_in_append_left occurs_in_append_right)
qed

text \<open>The pages of the sample templates.\<close>

lemma sample_layout_page:
  shows "renderTemplate e (tpl_layout sample_templates)
           (map_of [(''title'', t), (''description'', d), (''content'', c), (''styles'', s)]) =
         ''<title>'' @ t @ ''</title><style>'' @ s @ ''</style>'' @ c"
proof -
  let ?segs = "[Text ''<title>'', Token ''title'', Text ''</title><style>'', Token ''styles'',
                Text ''</style>'', Token ''content'']"
  have w: "list_all well_formed ?segs" by code_simp
  have t: "tpl_layout sample_templates = concat (map template_text ?segs)"
    by (simp add: sample_templates_def)
  show ?thesis
    unfolding t renderTemplate_segments[OF w] by (simp add: data_get_def)
qed

lemma sample_index_page:
  shows "renderTemplate e (tpl_index sample_templates) (map_of [(''articles'', x)]) =
         ''<main>'' @ x @ ''</main>''"
proof -
  let ?segs = "[Text ''<main>'', Token ''articles'', Text ''</main>'']"
  have w: "list_all well_formed ?segs" by code_simp
  have t: "tpl_index sample_templates = concat (map template_text ?segs)"
    by (simp add: sample_templates_def)
  show ?thesis
    unfolding t renderTemplate_segments[OF w] by (simp add: data_get_def)
qed

lemma sample_projects_page:
  shows "renderTemplate e (tpl_projects sample_templates) (map_of [(''projects'', x)]) =
         ''<main>'' @ x @ ''</main>''"
proof -
  let ?segs = "[Text ''<main>'', Token ''projects'', Text ''</main>'']"
  have w: "list_all well_formed ?segs" by code_simp
  have t: "tpl_projects sample_templates = concat (map template_text ?segs)"
    by (simp add: sample_templates_def)
  show ?thesis
    unfolding t renderTemplate_segments[OF w] by (simp add: data_get_def)
qed

text \<open>Every article has its card in the index page, and every project
  article its item in the projects page.\<close>

lemma those_map_member:
  "those (map f xs) = Some ys \<Longrightarrow> x \<in> set xs \<Longrightarrow> \<exists>y \<in> set ys. f x = Some y"
proof (induction xs arbitrary: ys)
  case Nil
  then show ?case by simp
next
  case (Cons z xs)
  from Cons.prems(1) obtain y ys' where y: "f z = Some y" and t: "those (map f xs) = Some ys'"
    and ys: "ys = y # ys'"
    by (auto split: option.splits)
  show ?case
  proof (cases "x = z")
    case True
    with y ys show ?thesis by simp
  next
    case False
    with Cons.prems(2) have "x \<in> set xs" by simp
    from Cons.IH[OF t this] ys show ?thesis by auto
  qed
qed

lemma index_card_heading:
  assumes "index_card e a = Some cardText"
  shows "occurs_in (card_heading a) cardText"
proof -
  from assms obtain isoDate where iso: "toISOString (date a) = Some isoDate"
    by (cases "toISOString (date a)") (simp_all add: index_card_def Let_def)
  show ?thesis
    using assms unfolding index_card_def Let_def iso option.case card_heading_def option.inject
    by (erule_tac subst) (rule occurs_in_here | rule occurs_in_append_left)+
qed

lemma project_article_link:
  assumes "project_article e a = Some item"
  shows "occurs_in (project_link a) item"
proof -
  from assms obtain isoDate where iso: "toISOString (date a) = Some isoDate"
    by (cases "toISOString (date a)") (simp_all add: project_article_def Let_def)
  show ?thesis
    using assms unfolding project_article_def Let_def iso option.case project_link_def option.inject
    by (erule_tac subst) (rule occurs_in_here | rule occurs_in_append_left)+
qed

lemma index_page_lists:
  assumes g: "generateIndexHTML e articles sample_templates styles = Inr (html, arts)"
    and a: "a \<in> set articles"
  shows "occurs_in (card_heading a) html"
proof -
  from g obtain cards where c: "those (map (index_card e) (sort_by_date_desc articles)) = Some cards"
    by (cases "those (map (index_card e) (sort_by_date_desc articles))")
       (simp_all add: generateIndexHTML_def Let_def)
  from a have "a \<in> set (sort_by_date_desc articles)" by (simp add: set_sort_by_date_desc)
  from those_map_member[OF c this] obtain cardText where
    m: "cardText \<in> set cards" and i: "index_card e a = Some cardText"
    by blast
  from occurs_in_concat[OF m index_card_heading[OF i]]
  have o: "occurs_in (card_heading a) (concat cards)" .
  from g c have "html = ''<title>'' @ (''Albert BF'' @ [CHR 0x27] @ ''s Blog'') @ ''</title><style>''
      @ styles @ ''</style>'' @ (''<main>'' @ concat cards @ ''</main>'')"
    by (simp add: generateIndexHTML_def Let_def sample_layout_page sample_index_page
          del: append.simps map_of.simps)
  then show ?thesis using o
    by (simp only:) (intro occurs_in_append_left occurs_in_append_right)
qed

lemma projectsMap_push_keeps:
  assumes "\<exists>entry \<in> set m. x \<in> set (snd entry)"
  shows "\<exists>entry \<in> set (projectsMap_push a m). x \<in> set (snd entry)"
proof -
  from assms obtain k arts where e: "(k, arts) \<in> set m" and x: "x \<in> set arts" by auto
  show ?thesis
  proof (cases "projectName a \<in> fst ` set m")
    case True
    let ?entry = "if k = projectName a then (k, arts @ [a]) else (k, arts)"
    from e True have "?entry \<in> set (projectsMap_push a m)"
      by (force simp: projectsMap_push_def)
    moreover from x have "x \<in> set (snd ?entry)" by simp
    ultimately show ?thesis by blast
  next
    case False
    with e have "(k, arts) \<in> set (projectsMap_push a m)" by (simp add: projectsMap_push_def)
    with x show ?thesis by force
  qed
qed

lemma projectsMap_push_adds: "\<exists>entry \<in> set (projectsMap_push a m). a \<in> set (snd entry)"
proof (cases "projectName a \<in> fst ` set m")
  case True
  then obtain arts where e: "(projectName a, arts) \<in> set m" by auto
  then have "(projectName a, arts @ [a]) \<in> set (projectsMap_push a m)"
    using True by (force simp: projectsMap_push_def)
  then show ?thesis by force
next
  case False
  then have "(projectName a, [a]) \<in> set (projectsMap_push a m)" by (simp add: projectsMap_push_def)
  then show ?thesis by force
qed

lemma projectsMap_holds:
  assumes "x \<in> set xs \<or> (\<exists>entry \<in> set m. x \<in> set (snd entry))"
  shows "\<exists>entry \<in> set (foldl (\<lambda>m a. projectsMap_push a m) m xs). x \<in> set (snd entry)"
  using assms
proof (induction xs arbitrary: m)
  case Nil
  then show ?case by simp
next
  case (Cons y xs)
  have "x \<in> set xs \<or> (\<exists>entry \<in> set (projectsMap_push y m). x \<in> set (snd entry))"
  proof (cases "x \<in> set xs")
    case True
    then show ?thesis ..
  next
    case False
    with Cons.prems consider "x = y" | "\<exists>entry \<in> set m. x \<in> set (snd entry)" by auto
    then have "\<exists>entry \<in> set (projectsMap_push y m). x \<in> set (snd entry)"
    proof cases
      case 1
      then show ?thesis using projectsMap_push_adds[of y m] by simp
    next
      case 2
      then show ?thesis by (rule projectsMap_push_keeps)
    qed
    then show ?thesis ..
  qed
  from Cons.IH[OF this] show ?case by simp
qed

lemma project_section_link:
  assumes s: "project_section e entry = Some sect" and a: "a \<in> set (snd entry)"
  shows "occurs_in (project_link a) sect"
proof -
  from s obtain items where i: "those (map (project_article e) (snd entry)) = Some items"
    by (cases "those (map (project_article e) (snd entry))") (simp_all add: project_section_def)
  from those_map_member[OF i a] obtain item where
    m: "item \<in> set items" and p: "project_article e a = Some item"
    by blast
  from occurs_in_concat[OF m project_article_link[OF p]]
  have o: "occurs_in (project_link a) (concat items)" .
  show ?thesis
    using s unfolding project_section_def i option.case option.inject
    by (erule_tac subst) (intro occurs_in_append_left occurs_in_append_right o)
qed

lemma projects_page_lists:
  assumes g: "generateProjectsHTML e articles sample_templates styles = Inr html"
    and a: "a \<in> set articles" "isProject a"
  shows "occurs_in (project_link a) html"
proof -
  let ?m = "foldl (\<lambda>m a. projectsMap_push a m) [] (filter isProject articles)"
  let ?s = "map (\<lambda>(k, arts). (k, sort_by_date_desc arts)) ?m"
  from g obtain sections where c: "those (map (project_section e) ?s) = Some sections"
    by (cases "those (map (project_section e) ?s)") (simp_all add: generateProjectsHTML_def Let_def)
  from a have "a \<in> set (filter isProject articles)" by simp
  then have "\<exists>entry \<in> set ?m. a \<in> set (snd entry)"
    by (intro projectsMap_holds) simp
  then obtain k arts where e: "(k, arts) \<in> set ?m" and m: "a \<in> set arts" by auto
  from e have e': "(k, sort_by_date_desc arts) \<in> set ?s" by force
  from those_map_member[OF c e'] obtain sect where
    n: "sect \<in> set sections" and s: "project_section e (k, sort_by_date_desc arts) = Some sect"
    by blast
  from m have "a \<in> set (snd (k, sort_by_date_desc arts))" by (simp add: set_sort_by_date_desc)
  from occurs_in_concat[OF n project_section_link[OF s this]]
  have o: "occurs_in (project_link a) (concat sections)" .
  from g c have "html = ''<title>'' @ (''Albert BF'' @ [CHR 0x27] @ ''s Projects'') @ ''</title><style>''
      @ styles @ ''</style>'' @ (''<main>'' @ concat sections @ ''</main>'')"
    by (simp add: generateProjectsHTML_def Let_def sample_layout_page sample_projects_page
          del: append.simps map_of.simps)
  then show ?thesis using o
    by (simp only:) (intro occurs_in_append_left occurs_in_append_right)
qed

subsection \<open>Files that fail to parse\<close>




subsection \<open>The article set during page composition\<close>

lemma two_site_in_order: "site_in_order sample_env (\<lambda>path. build_time) two_site"
  by code_simp

lemma two_site_succeeds: "exit_code (build sample_env (\<lambda>path. build_time) two_site) = 0"
  unfolding build_exit_code by (rule two_site_in_order)

lemma two_site_parses:
  "parse_files sample_env (\<lambda>path. build_time) two_site
     \<lparr>currentArticleLanguages = [], currentArticleForRenderer = None\<rparr> (markdownFiles two_site) =
   Inr ([hello_article, later_article], \<lparr>currentArticleLanguages = [], currentArticleForRenderer = None\<rparr>)"
  by code_simp

lemma two_articles_sorted: "sort_by_date_desc [hello_article, later_article] = [later_article, hello_article]"
  by code_simp

lemma two_site_search_index:
  "generateSearchIndex [later_article, hello_article] =
     Inr (search_index_of (build sample_env (\<lambda>path. build_time) two_site))"
  using build_success[OF two_site_succeeds] two_site_parses by (auto simp: two_articles_sorted)

text \<open>
  Claim C4.  Page composition and search-index emission never change a field
  of an article, and never add or remove an article; they do change the order
  of the article set.  In a build that succeeds, \<^verbatim>\<open>generateIndexHTML\<close> is given
  the array that the scanner produced and leaves it sorted: the same articles
  (as a multiset), by descending date, articles of equal date in the order
  they had; the order is the scanner's only if that was by descending date
  already.  The projects page and the search index are then made from the
  sorted array.
\<close>

theorem article_set_sorted_in_place:
  assumes "exit_code (build e clock fs) = 0"
  shows "\<exists>articles st styles tpls indexHTML projectsHTML.
           parse_files e clock fs \<lparr>currentArticleLanguages = [], currentArticleForRenderer = None\<rparr>
             (markdownFiles fs) = Inr (articles, st) \<and>
           readFile fs STYLES_PATH = Some styles \<and>
           loadTemplates fs = Some tpls \<and>
           generateIndexHTML e articles tpls styles = Inr (indexHTML, sort_by_date_desc articles) \<and>
           generateProjectsHTML e (sort_by_date_desc articles) tpls styles = Inr projectsHTML \<and>
           WriteFile (join [DIST_DIR, ''projects'', ''index.html'']) projectsHTML
             \<in> set (fs_ops (build e clock fs)) \<and>
           generateSearchIndex (sort_by_date_desc articles) = Inr (search_index_of (build e clock fs)) \<and>
           mset (sort_by_date_desc articles) = mset articles \<and>
           sorted (map date_key (sort_by_date_desc articles)) \<and>
           (\<forall>k. filter (\<lambda>a. date_key a = k) (sort_by_date_desc articles) =
                filter (\<lambda>a. date_key a = k) articles) \<and>
           (sort_by_date_desc articles = articles \<longleftrightarrow> sorted (map date_key articles))"
proof -
  from build_success[OF assms] obtain articles st styles tpls indexHTML projectsHTML where
    "parse_files e clock fs \<lparr>currentArticleLanguages = [], currentArticleForRenderer = None\<rparr>
       (markdownFiles fs) = Inr (articles, st)"
    "readFile fs STYLES_PATH = Some styles"
    "loadTemplates fs = Some tpls"
    "generateIndexHTML e articles tpls styles = Inr (indexHTML, sort_by_date_desc articles)"
    "generateProjectsHTML e (sort_by_date_desc articles) tpls styles = Inr projectsHTML"
    "WriteFile (join [DIST_DIR, ''projects'', ''index.html'']) projectsHTML
       \<in> set (fs_ops (build e clock fs))"
    "generateSearchIndex (sort_by_date_desc articles) = Inr (search_index_of (build e clock fs))"
    by blast
  with sort_by_date_desc_props[of articles] show ?thesis by blast
qed

text \<open>The site of two articles: the build succeeds, and the array of the
  scanner, which has the earlier article first, is sorted to have the later
  one first.\<close>

theorem article_set_sorted_in_place_witness:
  "exit_code (build sample_env (\<lambda>path. build_time) two_site) = 0 \<and>
   (\<exists>articles. mset (sort_by_date_desc articles) = mset articles \<and>
      generateSearchIndex (sort_by_date_desc articles) =
        Inr (search_index_of (build sample_env (\<lambda>path. build_time) two_site)))"
  using article_set_sorted_in_place[OF two_site_succeeds] two_site_succeeds by blast

text \<open>The scanner gives the articles of that site in the order Hello, Later;
  the search index of the same build has them in the order Later, Hello.\<close>

theorem article_set_order_counterexample:
  "parse_files sample_env (\<lambda>path. build_time) two_site
     \<lparr>currentArticleLanguages = [], currentArticleForRenderer = None\<rparr> (markdownFiles two_site) =
   Inr ([hello_article, later_article], \<lparr>currentArticleLanguages = [], currentArticleForRenderer = None\<rparr>) \<and>
   map si_title (search_index_of (build sample_env (\<lambda>path. build_time) two_site)) = [''Later'', ''Hello'']"
proof -
  have "map_sum id (map si_title) (generateSearchIndex [later_article, hello_article]) = Inr [''Later'', ''Hello'']"
    by code_simp
  then have "map si_title (search_index_of (build sample_env (\<lambda>path. build_time) two_site)) = [''Later'', ''Hello'']"
    unfolding two_site_search_index by simp
  with two_site_parses show ?thesis by (rule conjI)
qed

subsection \<open>The rendering of code blocks\<close>

text \<open>
  Claim C6.  A code block whose language tag is one of the supported
  languages, which highlight.js knows and highlights without throwing, is
  rendered as a code block in whose \<^verbatim>\<open>code\<close> element, of the class
  \<^verbatim>\<open>hljs language-\<close>\<open>l\<close>, stand the spans that highlight.js returns.  Every
  other code block (no tag, an unsupported tag, or a highlighting that throws)
  is rendered as a code block of the same shape, indented less, in whose
  \<^verbatim>\<open>code\<close> element stands the escaped text.  In both the copy button
  carries the escaped text, which is the text with each of the five characters
  replaced by its entity; none of \<^verbatim>\<open><\<close>, \<^verbatim>\<open>>\<close>, \<^verbatim>\<open>"\<close>, \<^verbatim>\<open>'\<close> is left in it.
  No code block ends \<^verbatim>\<open>marked.parse\<close>: a text in which marked finds no image
  is rendered, whatever highlight.js does.  Nor does one end the build, which
  ends with exit code 0 exactly for the sites in order, and whether a site is
  in order does not depend on highlight.js.
\<close>

theorem code_block_rendering:
  \<open>(tok_lang code = Some l \<and> l \<noteq> [] \<and> l \<in> set (SUPPORTED_LANGUAGES e) \<and>
      hljs_getLanguage e l \<and> hljs_highlight e (tok_text code) l = Some v
        \<longrightarrow> fst (renderer_code e st code) =
             code_block 8 l (''hljs language-'' @ l) v (concat (map html_entity (tok_text code)))) \<and>
    (tok_lang code = None \<or> tok_lang code = Some [] \<or>
      (\<exists>l. tok_lang code = Some l \<and>
         (l \<notin> set (SUPPORTED_LANGUAGES e) \<or> \<not> hljs_getLanguage e l \<or>
          hljs_highlight e (tok_text code) l = None))
        \<longrightarrow> fst (renderer_code e st code) =
             code_block 2 (case tok_lang code of None \<Rightarrow> ''text'' | Some l \<Rightarrow> if l = [] then ''text'' else l)
               (''language-'' @ (case tok_lang code of None \<Rightarrow> [] | Some l \<Rightarrow> l))
               (concat (map html_entity (tok_text code))) (concat (map html_entity (tok_text code)))) \<and>
    (\<forall>c \<in> set (concat (map html_entity (tok_text code))).
        c \<noteq> CHR ''<'' \<and> c \<noteq> CHR ''>'' \<and> c \<noteq> CHR ''"'' \<and> c \<noteq> CHR 0x27) \<and>
    (list_all (\<lambda>t. \<not> is_image t) ts \<longrightarrow> (\<exists>out st'. render_tokens e st ts = Inr (out, st'))) \<and>
    (exit_code (build e clock fs) = 0 \<longleftrightarrow> site_in_order e clock fs)\<close>
proof (intro conjI impI ballI)
  assume "tok_lang code = Some l \<and> l \<noteq> [] \<and> l \<in> set (SUPPORTED_LANGUAGES e) \<and>
      hljs_getLanguage e l \<and> hljs_highlight e (tok_text code) l = Some v"
  then show "fst (renderer_code e st code) =
             code_block 8 l (''hljs language-'' @ l) v (concat (map html_entity (tok_text code)))"
    using renderer_code_highlighted by blast
next
  assume "tok_lang code = None \<or> tok_lang code = Some [] \<or>
      (\<exists>l. tok_lang code = Some l \<and>
         (l \<notin> set (SUPPORTED_LANGUAGES e) \<or> \<not> hljs_getLanguage e l \<or>
          hljs_highlight e (tok_text code) l = None))"
  then show "fst (renderer_code e st code) =
             code_block 2 (case tok_lang code of None \<Rightarrow> ''text'' | Some l \<Rightarrow> if l = [] then ''text'' else l)
               (''language-'' @ (case tok_lang code of None \<Rightarrow> [] | Some l \<Rightarrow> l))
               (concat (map html_entity (tok_text code))) (concat (map html_entity (tok_text code)))"
    by (rule renderer_code_plain)
next
  fix c assume "c \<in> set (concat (map html_entity (tok_text code)))"
  then have "c \<in> set (escapeHtml (Str (tok_text code)))" by (simp only: escapeHtml_entities)
  from escapeHtml_inert[OF this]
  show \<open>c \<noteq> CHR ''<''\<close> \<open>c \<noteq> CHR ''>''\<close> \<open>c \<noteq> CHR ''"''\<close> \<open>c \<noteq> CHR 0x27\<close> by simp_all
next
  assume "list_all (\<lambda>t. \<not> is_image t) ts"
  from render_tokens_no_image[OF this, of e st]
  show "\<exists>out st'. render_tokens e st ts = Inr (out, st')" by blast
next
  show "exit_code (build e clock fs) = 0 \<longleftrightarrow> site_in_order e clock fs"
    by (rule build_exit_code)
qed

text \<open>A line of Go is highlighted; a block without a tag and a block on which
  the highlighter throws are escaped; the three are rendered one after the
  other, and the site whose article holds the third is built.\<close>

theorem code_block_rendering_witness:
  \<open>fst (renderer_code sample_env init_state go_block) =
      code_block 8 ''go'' ''hljs language-go'' ''<span class="hljs-keyword">package</span> main''
        ''package main'' \<and>
    fst (renderer_code sample_env init_state untagged_block) =
      code_block 2 ''text'' ''language-'' ''&lt;b&gt;'' ''&lt;b&gt;'' \<and>
    fst (renderer_code sample_env init_state failing_block) =
      code_block 2 ''javascript'' ''language-javascript'' ''a &lt; b'' ''a &lt; b'' \<and>
    (\<exists>out st'. render_tokens sample_env init_state [Code go_block, Code untagged_block, Code failing_block]
       = Inr (out, st')) \<and>
    exit_code (build sample_env (\<lambda>path. build_time) code_site) = 0\<close>
proof -
  have g: \<open>tok_lang go_block = Some ''go'' \<and> ''go'' \<noteq> [] \<and> ''go'' \<in> set (SUPPORTED_LANGUAGES sample_env) \<and>
      hljs_getLanguage sample_env ''go'' \<and>
      hljs_highlight sample_env (tok_text go_block) ''go'' = Some ''<span class="hljs-keyword">package</span> main''\<close>
    by (simp add: go_block_def sample_env_def)
  have e1: "concat (map html_entity (tok_text go_block)) = ''package main''"
    by (simp add: go_block_def html_entity_def)
  have u: "tok_lang untagged_block = None" by (simp add: untagged_block_def)
  have e2: "concat (map html_entity (tok_text untagged_block)) = ''&lt;b&gt;''"
    by (simp add: untagged_block_def html_entity_def)
  have f: "\<exists>l. tok_lang failing_block = Some l \<and>
         (l \<notin> set (SUPPORTED_LANGUAGES sample_env) \<or> \<not> hljs_getLanguage sample_env l \<or>
          hljs_highlight sample_env (tok_text failing_block) l = None)"
    by (simp add: failing_block_def sample_env_def)
  have fl: "tok_lang failing_block = Some ''javascript''" by (simp add: failing_block_def)
  have e3: "concat (map html_entity (tok_text failing_block)) = ''a &lt; b''"
    by (simp add: failing_block_def html_entity_def)
  have n: "list_all (\<lambda>t. \<not> is_image t) [Code go_block, Code untagged_block, Code failing_block]"
    by simp
  from code_block_rendering[where code = go_block and e = sample_env and l = "''go''" and st = init_state]
    g e1
  have 1: \<open>fst (renderer_code sample_env init_state go_block) =
      code_block 8 ''go'' ''hljs language-go'' ''<span class="hljs-keyword">package</span> main''
        ''package main''\<close>
    by simp
  from code_block_rendering[where code = untagged_block and e = sample_env and st = init_state]
    u e2
  have 2: "fst (renderer_code sample_env init_state untagged_block) =
      code_block 2 ''text'' ''language-'' ''&lt;b&gt;'' ''&lt;b&gt;''"
    by simp
  from code_block_rendering[where code = failing_block and e = sample_env and st = init_state]
    f fl e3
  have 3: "fst (renderer_code sample_env init_state failing_block) =
      code_block 2 ''javascript'' ''language-javascript'' ''a &lt; b'' ''a &lt; b''"
    by simp
  from code_block_rendering[where e = sample_env and st = init_state
      and ts = "[Code go_block, Code untagged_block, Code failing_block]"] n
  have 4: "\<exists>out st'. render_tokens sample_env init_state
      [Code go_block, Code untagged_block, Code failing_block] = Inr (out, st')"
    by blast
  have o: "site_in_order sample_env (\<lambda>path. build_time) code_site"
    by code_simp
  from code_block_rendering[where e = sample_env and clock = "\<lambda>path. build_time" and fs = code_site] o
  have 5: "exit_code (build sample_env (\<lambda>path. build_time) code_site) = 0"
    by blast
  from 1 2 3 4 5 show ?thesis by (intro conjI)
qed

subsection \<open>Images\<close>

text \<open>
  Claim C8.  For the strings \<^verbatim>\<open>./pic.png\<close> and \<^verbatim>\<open>alt\<close> and the article at
  \<^verbatim>\<open>/articles/2025/foo\<close>, \<^verbatim>\<open>renderer.image\<close> returns the element that the
  claim names, and the copy of the image goes to the same path under the output
  directory.  marked does not call it with strings: it hands it the token, on
  which the call throws, so the file fails to parse and the build ends with
  exit code 1, having only created the output directory.
\<close>

theorem image_round_trip_throws:
  \<open>renderer_image sample_env rendering_foo (AString ''./pic.png'') ANull (AString ''alt'')
     = Inr ''<img src="/articles/2025/foo/pic.png" alt="alt">'' \<and>
   exec_all imageRegex (content foo_article) = [''./pic.png''] \<and>
   copy_images foo_article = [Cp ''articles/2025/pic.png'' ''dist/articles/2025/foo/pic.png''] \<and>
   marked_lexer sample_env (content foo_article) =
     [Html ''<p>'', Image \<lparr>img_href = ''./pic.png'', img_title = None, img_text = ''alt''\<rparr>,
      Html ''</p>\<newline>''] \<and>
   renderer_image sample_env rendering_foo
     (AToken \<lparr>img_href = ''./pic.png'', img_title = None, img_text = ''alt''\<rparr>) AUndefined AUndefined
     = Inl TypeError \<and>
   parseMarkdownFile sample_env build_time init_state ''articles/2025/foo.md'' (Some foo_doc) = Inl TypeError \<and>
   build sample_env (\<lambda>path. build_time) foo_site = \<lparr>exit_code = 1, fs_ops = [Mkdir DIST_DIR]\<rparr>\<close>
proof -
  have 1: \<open>renderer_image sample_env rendering_foo (AString ''./pic.png'') ANull (AString ''alt'')
     = Inr ''<img src="/articles/2025/foo/pic.png" alt="alt">''\<close>
    by code_simp
  have 2: "exec_all imageRegex (content foo_article) = [''./pic.png'']"
    by code_simp
  have 3: "copy_images foo_article = [Cp ''articles/2025/pic.png'' ''dist/articles/2025/foo/pic.png'']"
    by code_simp
  have 4: "marked_lexer sample_env (content foo_article) =
     [Html ''<p>'', Image \<lparr>img_href = ''./pic.png'', img_title = None, img_text = ''alt''\<rparr>,
      Html ''</p>\<newline>'']"
    by (simp add: sample_env_def foo_article_def)
  have 5: "renderer_image sample_env rendering_foo
     (AToken \<lparr>img_href = ''./pic.png'', img_title = None, img_text = ''alt''\<rparr>) AUndefined AUndefined
     = Inl TypeError"
    by (rule renderer_image_token) (simp add: rendering_foo_def)
  have 6: "parseMarkdownFile sample_env build_time init_state ''articles/2025/foo.md'' (Some foo_doc)
     = Inl TypeError"
    by code_simp
  have 7: "build sample_env (\<lambda>path. build_time) foo_site = \<lparr>exit_code = 1, fs_ops = [Mkdir DIST_DIR]\<rparr>"
    by code_simp
  from 1 2 3 4 5 6 7 show ?thesis by (intro conjI)
qed

text \<open>
  Claim C10.  For an image whose target starts with \<^verbatim>\<open>//\<close>, the expression
  of \<^verbatim>\<open>parseMarkdownFile\<close> captures the target, so that it would be copied as
  a file of the article, and \<^verbatim>\<open>renderer.image\<close>, given the target as a
  string, hands it on to marked's own renderer.  marked does not call it with
  strings: it hands it the token, on which the call throws, so the file fails
  to parse and the build ends with exit code 1 before any page is rendered or
  any image copied.
\<close>

theorem protocol_relative_image_throws:
  "exec_all imageRegex (content cdn_article) = [''//cdn.example.com/logo.png''] \<and>
   copy_images cdn_article = [Cp ''articles/2025/cdn.example.com/logo.png'' ''dist/articles/2025/cdn/logo.png''] \<and>
   renderer_image sample_env \<lparr>currentArticleLanguages = [], currentArticleForRenderer = Some cdn_article\<rparr>
     (AString ''//cdn.example.com/logo.png'') ANull (AString ''logo'')
     = marked_image sample_env (AString ''//cdn.example.com/logo.png'') ANull (AString ''logo'') \<and>
   marked_lexer sample_env (content cdn_article) =
     [Html ''<p>'',
      Image \<lparr>img_href = ''//cdn.example.com/logo.png'', img_title = None, img_text = ''logo''\<rparr>,
      Html ''</p>\<newline>''] \<and>
   renderer_image sample_env \<lparr>currentArticleLanguages = [], currentArticleForRenderer = Some cdn_article\<rparr>
     (AToken \<lparr>img_href = ''//cdn.example.com/logo.png'', img_title = None, img_text = ''logo''\<rparr>)
     AUndefined AUndefined = Inl TypeError \<and>
   parseMarkdownFile sample_env build_time init_state ''articles/2025/cdn.md'' (Some cdn_doc) = Inl TypeError \<and>
   build sample_env (\<lambda>path. build_time) cdn_site = \<lparr>exit_code = 1, fs_ops = [Mkdir DIST_DIR]\<rparr>"
proof -
  have 1: "exec_all imageRegex (content cdn_article) = [''//cdn.example.com/logo.png'']"
    by code_simp
  have 2: "copy_images cdn_article =
      [Cp ''articles/2025/cdn.example.com/logo.png'' ''dist/articles/2025/cdn/logo.png'']"
    by code_simp
  have a: "re_absolute_url ''//cdn.example.com/logo.png'' = Some ()"
    by code_simp
  have 3: "renderer_image sample_env \<lparr>currentArticleLanguages = [], currentArticleForRenderer = Some cdn_article\<rparr>
     (AString ''//cdn.example.com/logo.png'') ANull (AString ''logo'')
     = marked_image sample_env (AString ''//cdn.example.com/logo.png'') ANull (AString ''logo'')"
    by (simp add: renderer_image_def String_arg_def a)
  have 4: "marked_lexer sample_env (content cdn_article) =
     [Html ''<p>'',
      Image \<lparr>img_href = ''//cdn.example.com/logo.png'', img_title = None, img_text = ''logo''\<rparr>,
      Html ''</p>\<newline>'']"
    by (simp add: sample_env_def cdn_article_def foo_article_def)
  have 5: "renderer_image sample_env \<lparr>currentArticleLanguages = [], currentArticleForRenderer = Some cdn_article\<rparr>
     (AToken \<lparr>img_href = ''//cdn.example.com/logo.png'', img_title = None, img_text = ''logo''\<rparr>)
     AUndefined AUndefined = Inl TypeError"
    by (rule renderer_image_token) simp
  have 6: "parseMarkdownFile sample_env build_time init_state ''articles/2025/cdn.md'' (Some cdn_doc)
     = Inl TypeError"
    by code_simp
  have 7: "build sample_env (\<lambda>path. build_time) cdn_site = \<lparr>exit_code = 1, fs_ops = [Mkdir DIST_DIR]\<rparr>"
    by code_simp
  from 1 2 3 4 5 6 7 show ?thesis by (intro conjI)
qed

subsection \<open>Two builds of the same sources\<close>

lemma two_site_dates: "every_date_given sample_env two_site"
  by code_simp

lemma undated_site_parses:
  "parse_files sample_env (\<lambda>path. build_time) undated_site
     \<lparr>currentArticleLanguages = [], currentArticleForRenderer = None\<rparr> (markdownFiles undated_site) =
   Inr ([undated_article build_time], \<lparr>currentArticleLanguages = [], currentArticleForRenderer = None\<rparr>)"
  by code_simp

lemma undated_site_parses_later:
  "parse_files sample_env (\<lambda>path. build_time + 1000) undated_site
     \<lparr>currentArticleLanguages = [], currentArticleForRenderer = None\<rparr> (markdownFiles undated_site) =
   Inr ([undated_article (build_time + 1000)],
        \<lparr>currentArticleLanguages = [], currentArticleForRenderer = None\<rparr>)"
  by code_simp

lemma undated_site_search_index:
  assumes "parse_files sample_env clock undated_site
     \<lparr>currentArticleLanguages = [], currentArticleForRenderer = None\<rparr> (markdownFiles undated_site) =
   Inr ([undated_article now], \<lparr>currentArticleLanguages = [], currentArticleForRenderer = None\<rparr>)"
  shows "generateSearchIndex [undated_article now] = Inr (search_index_of (build sample_env clock undated_site))"
proof -
  have "exit_code (build sample_env clock undated_site) = 0"
  proof (rule build_succeeds[OF _ _ assms])
    show "readFile undated_site STYLES_PATH = Some ''body{}''"
      unfolding undated_site_def by (rule site_styles)
    show "loadTemplates undated_site = Some sample_templates"
      unfolding undated_site_def by (rule site_templates)
    show "\<forall>a \<in> set [undated_article now]. date a \<noteq> None"
      by (simp add: undated_article_def)
  qed
  from build_success[OF this] assms show ?thesis
    by (auto simp: sort_by_date_desc_def)
qed

text \<open>
  Claim C9.  Two builds of the same source files, templates and stylesheet,
  with the same libraries and in the same time zone, perform the same
  operations with the same contents whatever the clock reads during either,
  provided that every article gives a date in its frontmatter.
\<close>

theorem build_independent_of_clock:
  assumes "every_date_given e fs"
  shows "build e clock1 fs = build e clock2 fs"
  using assms by (rule build_clock)

text \<open>The site of two dated articles, built at midnight and one second later.\<close>

theorem build_independent_of_clock_witness:
  "every_date_given sample_env two_site \<and>
   exit_code (build sample_env (\<lambda>path. build_time) two_site) = 0 \<and>
   build sample_env (\<lambda>path. build_time) two_site = build sample_env (\<lambda>path. build_time + 1000) two_site"
  using build_independent_of_clock[OF two_site_dates, of "\<lambda>path. build_time" "\<lambda>path. build_time + 1000"]
    two_site_dates two_site_succeeds
  by (intro conjI)

text \<open>A site whose one article gives no date, built at the same two times: the
  date of the article in the search index is the time of the build.\<close>

theorem build_clock_counterexample:
  "map si_date (search_index_of (build sample_env (\<lambda>path. build_time) undated_site)) =
     [''2025-01-15T00:00:00.000Z''] \<and>
   map si_date (search_index_of (build sample_env (\<lambda>path. build_time + 1000) undated_site)) =
     [''2025-01-15T00:00:01.000Z'']"
proof
  have "map_sum id (map si_date) (generateSearchIndex [undated_article build_time]) =
          Inr [''2025-01-15T00:00:00.000Z'']"
    by code_simp
  then show "map si_date (search_index_of (build sample_env (\<lambda>path. build_time) undated_site)) =
     [''2025-01-15T00:00:00.000Z'']"
    unfolding undated_site_search_index[OF undated_site_parses] by simp
next
  have "map_sum id (map si_date) (generateSearchIndex [undated_article (build_time + 1000)]) =
          Inr [''2025-01-15T00:00:01.000Z'']"
    by code_simp
  then show "map si_date (search_index_of (build sample_env (\<lambda>path. build_time + 1000) undated_site)) =
     [''2025-01-15T00:00:01.000Z'']"
    unfolding undated_site_search_index[OF undated_site_parses_later] by simp
qed

subsection \<open>Articles dated after the build\<close>

lemma future_site_templates: "loadTemplates future_site = Some sample_templates"
  unfolding future_site_def by (rule site_templates)

lemma future_site_parses:
  "parse_files sample_env (\<lambda>path. build_time) future_site
     \<lparr>currentArticleLanguages = [], currentArticleForRenderer = None\<rparr> (markdownFiles future_site) =
   Inr ([future_article], \<lparr>currentArticleLanguages = [], currentArticleForRenderer = None\<rparr>)"
  by code_simp

lemma future_site_succeeds: "exit_code (build sample_env (\<lambda>path. build_time) future_site) = 0"
proof (rule build_succeeds[OF _ future_site_templates future_site_parses])
  show "readFile future_site STYLES_PATH = Some ''body{}''"
    unfolding future_site_def by (rule site_styles)
  show "\<forall>a \<in> set [future_article]. date a \<noteq> None"
    by (simp add: future_article_def)
qed

text \<open>
  Claim C1.  \<^verbatim>\<open>build\<close> applies no filter on the date: the site whose one
  article, of the project \<^verbatim>\<open>demo\<close>, is dated 1 January 2999 is built on
  15 January 2025 with exit code 0, and the article has its card in the index
  page, its item in the projects page and its record in the search index.
\<close>

theorem future_article_is_listed:
  "parse_files sample_env (\<lambda>path. build_time) future_site \<lparr>currentArticleLanguages = [], currentArticleForRenderer = None\<rparr>
     (markdownFiles future_site) =
     Inr ([future_article], \<lparr>currentArticleLanguages = [], currentArticleForRenderer = None\<rparr>) \<and>
   is_future (LocalTZA sample_env) build_time future_article \<and>
   exit_code (build sample_env (\<lambda>path. build_time) future_site) = 0 \<and>
   (\<exists>html. WriteFile (join [DIST_DIR, ''index.html'']) html
              \<in> set (fs_ops (build sample_env (\<lambda>path. build_time) future_site)) \<and>
           occurs_in (card_heading future_article) html) \<and>
   (\<exists>html. WriteFile (join [DIST_DIR, ''projects'', ''index.html'']) html
              \<in> set (fs_ops (build sample_env (\<lambda>path. build_time) future_site)) \<and>
           occurs_in (project_link future_article) html) \<and>
   map si_url (search_index_of (build sample_env (\<lambda>path. build_time) future_site)) = [url future_article]"
proof -
  have srt: "sort_by_date_desc [future_article] = [future_article]"
    by (simp add: sort_by_date_desc_def)
  have styles: "readFile future_site STYLES_PATH = Some ''body{}''"
    unfolding future_site_def by (rule site_styles)
  from build_success[OF future_site_succeeds] obtain articles st stylesText tpls indexHTML projectsHTML where
    b: "parse_files sample_env (\<lambda>path. build_time) future_site
          \<lparr>currentArticleLanguages = [], currentArticleForRenderer = None\<rparr> (markdownFiles future_site) =
          Inr (articles, st)"
      "readFile future_site STYLES_PATH = Some stylesText"
      "loadTemplates future_site = Some tpls"
      "generateIndexHTML sample_env articles tpls stylesText = Inr (indexHTML, sort_by_date_desc articles)"
      "generateProjectsHTML sample_env (sort_by_date_desc articles) tpls stylesText = Inr projectsHTML"
      "generateSearchIndex (sort_by_date_desc articles) =
          Inr (search_index_of (build sample_env (\<lambda>path. build_time) future_site))"
    and y: "WriteFile (join [DIST_DIR, ''index.html'']) indexHTML
          \<in> set (fs_ops (build sample_env (\<lambda>path. build_time) future_site))"
    and z: "WriteFile (join [DIST_DIR, ''projects'', ''index.html'']) projectsHTML
          \<in> set (fs_ops (build sample_env (\<lambda>path. build_time) future_site))"
    by blast
  from b(1) have a: "articles = [future_article]" unfolding future_site_parses by simp
  from b(2) have s: "stylesText = ''body{}''" unfolding styles by simp
  from b(3) have t: "tpls = sample_templates" unfolding future_site_templates by simp
  from b(4) have i: "generateIndexHTML sample_env [future_article] sample_templates ''body{}'' =
          Inr (indexHTML, [future_article])"
    unfolding a s t srt .
  from b(5) have j: "generateProjectsHTML sample_env [future_article] sample_templates ''body{}'' =
          Inr projectsHTML"
    unfolding a s t srt .
  from b(6) have k: "generateSearchIndex [future_article] =
          Inr (search_index_of (build sample_env (\<lambda>path. build_time) future_site))"
    unfolding a srt .
  have f: "is_future (LocalTZA sample_env) build_time future_article"
    by code_simp
  have p: "isProject future_article"
    by (simp add: future_article_def)
  have "occurs_in (card_heading future_article) indexHTML"
    by (rule index_page_lists[OF i]) simp
  with y have 1: "\<exists>html. WriteFile (join [DIST_DIR, ''index.html'']) html
              \<in> set (fs_ops (build sample_env (\<lambda>path. build_time) future_site)) \<and>
           occurs_in (card_heading future_article) html"
    by blast
  have "occurs_in (project_link future_article) projectsHTML"
    by (rule projects_page_lists[OF j _ p]) simp
  with z have 2: "\<exists>html. WriteFile (join [DIST_DIR, ''projects'', ''index.html'']) html
              \<in> set (fs_ops (build sample_env (\<lambda>path. build_time) future_site)) \<and>
           occurs_in (project_link future_article) html"
    by blast
  have "map_sum id (map si_url) (generateSearchIndex [future_article]) = Inr [url future_article]"
    by code_simp
  then have 3: "map si_url (search_index_of (build sample_env (\<lambda>path. build_time) future_site)) = [url future_article]"
    unfolding k by simp
  from future_site_parses f future_site_succeeds 1 2 3 show ?thesis
    by (intro conjI)
qed

end
